theory Spec2Isabelle
  imports Complex_Main
begin

section \<open>Numbers, characters and errors\<close>

text \<open>
  The atlas packer of \<open>DynamicBitmapFont.ts\<close> computes with JavaScript numbers, which are
  IEEE 754 doubles. A number is embedded as the real it denotes. Every \<open>+\<close>, \<open>-\<close>, \<open>*\<close>
  and \<open>/\<close> of the source is the exact operation followed by \<open>fl\<close>, the rounding to the
  nearest double with ties to the even significand: 53 significant bits from \<open>2 ^ -1022\<close>
  upwards, and a fixed last place of \<open>2 ^ -1074\<close> below. \<open>Math.ceil\<close>, \<open>Math.max\<close>, the
  unary minus and the comparisons are exact on doubles.

  A result whose magnitude reaches \<open>2 ^ 1024\<close> is \<open>Infinity\<close> in the program and a finite
  real here; \<open>NaN\<close> and the infinities are outside the model, and so is a division by
  zero, which gives one of them in the program and 0 in HOL.

  The two shader functions of \<open>mSDFBit.ts\<close> are embedded over the reals, as their
  property is stated.

  A character is one code point, as produced by \<open>resolveCharacters\<close>; a text handed to the
  measuring collaborator is a list of code points.
\<close>

type_synonym codepoint = nat

datatype error = TypeError

definition roundHalfEven :: "real \<Rightarrow> int" where
  \<comment> \<open>the nearest integer, the even one of two that are equally near\<close>
  "roundHalfEven q =
     (let f = \<lfloor>q\<rfloor>; d = q - of_int f
      in if d < 1 / 2 then f else if 1 / 2 < d then f + 1 else if even f then f else f + 1)"

definition fl :: "real \<Rightarrow> real" where
  \<comment> \<open>the nearest double: \<open>e\<close> is the exponent of the last place of \<open>x\<close>\<close>
  "fl x =
     (if x = 0 then 0
      else (let e = max \<lfloor>log 2 \<bar>x\<bar>\<rfloor> (- 1022) - 52
            in of_int (roundHalfEven (x / 2 powr of_int e)) * 2 powr of_int e))"

definition fadd :: "real \<Rightarrow> real \<Rightarrow> real" where
  "fadd a b = fl (a + b)"

definition fsub :: "real \<Rightarrow> real \<Rightarrow> real" where
  "fsub a b = fl (a - b)"

definition fmul :: "real \<Rightarrow> real \<Rightarrow> real" where
  "fmul a b = fl (a * b)"

definition fdiv :: "real \<Rightarrow> real \<Rightarrow> real" where
  "fdiv a b = fl (a / b)"

definition ceil :: "real \<Rightarrow> real" where
  \<comment> \<open>\<open>Math.ceil\<close>\<close>
  "ceil v = real_of_int \<lceil>v\<rceil>"

section \<open>Data model\<close>

record Rectangle =
  rect_x :: real
  rect_y :: real
  rect_width :: real
  rect_height :: real

text \<open>A texture names its source by the index of the page that owns the source.\<close>

record Texture =
  source :: int
  frame :: Rectangle

record CharData =
  id_code :: codepoint
  xOffset :: real
  yOffset :: real
  xAdvance :: real
  kerning :: "codepoint \<rightharpoonup> real"
  texture :: "Texture option"

text \<open>
  One entry of \<open>pages\<close>: the canvas with its context, and the texture whose source wraps
  the canvas. The fields are the dimensions the packer reads.
\<close>

record PageData =
  pageIndex :: int
  canvasWidth :: real
  canvasHeight :: real
  sourceWidth :: real
  sourceHeight :: real
  sourceResolution :: real

text \<open>
  The parts of a \<open>TextStyle\<close> the packer reads: \<open>fontSize\<close>, whether \<open>fontStyle\<close> is
  \<open>'italic'\<close>, \<open>_stroke?.width\<close> and \<open>dropShadow?.distance\<close>.
\<close>

record TextStyle =
  fontSize :: real
  italic :: bool
  stroke :: "real option"
  dropShadow :: "real option"

record DynamicBitmapFontOptions =
  opt_style :: TextStyle
  opt_skipKerning :: "bool option"
  opt_resolution :: "real option"
  opt_padding :: "real option"
  opt_overrideSize :: bool
  opt_textureSize :: "real option"

text \<open>One call of \<open>_drawGlyph\<close>: the page drawn into, the character and the position.\<close>

record DrawCall =
  draw_page :: int
  draw_char :: codepoint
  draw_x :: real
  draw_y :: real

text \<open>
  The font instance. The first seven fields are set by the constructor and never written
  again; the next seven are the mutable state of the class; the last three record the
  calls made to collaborators (\<open>_drawGlyph\<close>, \<open>textureSource.update()\<close>,
  \<open>CanvasTextMetrics.measureTextWidth\<close>), in order.
\<close>

record DynamicBitmapFont =
  style :: TextStyle
  skipKerning :: bool
  resolution :: real
  padding :: real
  textureSize :: real
  baseRenderedFontSize :: real
  baseMeasurementFontSize :: real
  chars :: "codepoint \<rightharpoonup> CharData"
  pages :: "int \<rightharpoonup> PageData"
  measureCache :: "codepoint \<rightharpoonup> real"
  currentChars :: "codepoint list"
  currentX :: real
  currentY :: real
  currentPageIndex :: int
  drawn :: "DrawCall list"
  uploaded :: "int list"
  measured :: "codepoint list list"

text \<open>
  The collaborators whose code is outside the two source files, taken as parameters:
  \<open>resolveCharacters\<close>; \<open>CanvasTextMetrics.measureTextWidth(text, 0, context)\<close>; the
  \<open>height\<close> of \<open>CanvasTextMetrics.measureText(char, style, canvas, false)\<close>; the width and
  height of the canvas returned by \<open>CanvasPool.getOptimalCanvasAndContext\<close>; the width and
  height of an \<open>ImageSource\<close> built on a canvas with a resolution.
\<close>

record Env =
  resolveCharacters :: "string \<Rightarrow> codepoint list"
  measureTextWidth :: "codepoint list \<Rightarrow> real"
  measureTextHeight :: "codepoint \<Rightarrow> real"
  getOptimalCanvasAndContext :: "real \<Rightarrow> real \<Rightarrow> real \<Rightarrow> real \<times> real"
  imageSourceSize :: "real \<Rightarrow> real \<Rightarrow> real \<Rightarrow> real \<times> real"

section \<open>The constructor\<close>

text \<open>
  \<open>baseMeasurementFontSize\<close> and \<open>baseRenderedFontSize\<close> are fields of
  \<open>AbstractBitmapFont\<close>; their initial values are the first two arguments. \<open>overrideFill\<close>
  and \<open>mipmap\<close> only reach the fill paint and the texture upload and are left out, as
  are \<open>applyFillAsTint\<close>, \<open>fontMetrics\<close> and \<open>lineHeight\<close>, which the packer never reads.
\<close>

definition newDynamicBitmapFont ::
  "real \<Rightarrow> real \<Rightarrow> DynamicBitmapFontOptions \<Rightarrow> DynamicBitmapFont" where
  "newDynamicBitmapFont baseMeasurement baseRendered options =
     (let requestedFontSize = fontSize (opt_style options);
          style1 = (opt_style options)\<lparr>fontSize := baseMeasurement\<rparr>;
          style2 = (if opt_overrideSize options
                    then style1\<lparr>stroke :=
                           (case stroke style1 of None \<Rightarrow> None
                            | Some w \<Rightarrow> Some (fmul w (fdiv baseRendered requestedFontSize)))\<rparr>
                    else style1\<lparr>fontSize := requestedFontSize\<rparr>)
      in \<lparr>style = style2,
          skipKerning = (case opt_skipKerning options of None \<Rightarrow> False | Some b \<Rightarrow> b),
          resolution = (case opt_resolution options of None \<Rightarrow> 1 | Some r \<Rightarrow> r),
          padding = (case opt_padding options of None \<Rightarrow> 4 | Some p \<Rightarrow> p),
          textureSize = (case opt_textureSize options of None \<Rightarrow> 512 | Some t \<Rightarrow> t),
          baseRenderedFontSize =
            (if opt_overrideSize options then baseRendered else requestedFontSize),
          baseMeasurementFontSize = baseMeasurement,
          chars = Map.empty,
          pages = Map.empty,
          measureCache = Map.empty,
          currentChars = [],
          currentX = 0,
          currentY = 0,
          currentPageIndex = - 1,
          drawn = [],
          uploaded = [],
          measured = []\<rparr>)"

section \<open>Pages\<close>

definition fontScale :: "DynamicBitmapFont \<Rightarrow> real" where
  "fontScale fnt = fdiv (baseRenderedFontSize fnt) (baseMeasurementFontSize fnt)"

definition nextPage :: "Env \<Rightarrow> DynamicBitmapFont \<Rightarrow> DynamicBitmapFont \<times> PageData" where
  "nextPage env fnt =
     (let index = currentPageIndex fnt + 1;
          textureResolution = resolution fnt;
          canvas = getOptimalCanvasAndContext env (textureSize fnt) (textureSize fnt)
                     textureResolution;
          res = fmul textureResolution
                  (fdiv (baseRenderedFontSize fnt) (baseMeasurementFontSize fnt));
          src = imageSourceSize env (fst canvas) (snd canvas) res;
          pageData = \<lparr>pageIndex = index,
                      canvasWidth = fst canvas, canvasHeight = snd canvas,
                      sourceWidth = fst src, sourceHeight = snd src,
                      sourceResolution = res\<rparr>
      in (fnt\<lparr>currentPageIndex := index, pages := (pages fnt)(index \<mapsto> pageData)\<rparr>,
          pageData))"

section \<open>Filtering the requested characters\<close>

fun indexOfFrom :: "'a list \<Rightarrow> 'a \<Rightarrow> int \<Rightarrow> int" where
  "indexOfFrom [] c i = - 1"
| "indexOfFrom (x # xs) c i = (if x = c then i else indexOfFrom xs c (i + 1))"

definition indexOf :: "'a list \<Rightarrow> 'a \<Rightarrow> int" where
  \<comment> \<open>\<open>Array.prototype.indexOf\<close>: the first index of the element, or \<open>-1\<close>\<close>
  "indexOf xs c = indexOfFrom xs c 0"

fun filterIndexed :: "('a \<Rightarrow> int \<Rightarrow> bool) \<Rightarrow> 'a list \<Rightarrow> int \<Rightarrow> 'a list" where
  \<comment> \<open>\<open>Array.prototype.filter\<close> with a callback that reads the index\<close>
  "filterIndexed p [] i = []"
| "filterIndexed p (x # xs) i =
     (if p x i then x # filterIndexed p xs (i + 1) else filterIndexed p xs (i + 1))"

definition charListOf :: "Env \<Rightarrow> string \<Rightarrow> DynamicBitmapFont \<Rightarrow> codepoint list" where
  "charListOf env str fnt =
     (let self = filter (\<lambda>char. char \<notin> set (currentChars fnt)) (resolveCharacters env str)
      in filterIndexed (\<lambda>char index. indexOf self char = index) self 0)"

section \<open>Packing one character\<close>

definition isWhitespace :: "codepoint \<Rightarrow> bool" where
  \<comment> \<open>line feed, carriage return, tab, space\<close>
  "isWhitespace char \<longleftrightarrow> char = 10 \<or> char = 13 \<or> char = 9 \<or> char = 32"

definition scaledPadding :: "DynamicBitmapFont \<Rightarrow> real" where
  "scaledPadding fnt = fmul (padding fnt) (fontScale fnt)"

definition paddedWidth :: "Env \<Rightarrow> DynamicBitmapFont \<Rightarrow> codepoint \<Rightarrow> real" where
  "paddedWidth env fnt char =
     (let charWidth = measureTextWidth env [char];
          width = fmul charWidth (fontScale fnt);
          textureGlyphWidth = ceil (fmul (if italic (style fnt) then 2 else 1) width)
      in fadd textureGlyphWidth (fmul (scaledPadding fnt) 2))"

definition paddedHeight :: "Env \<Rightarrow> DynamicBitmapFont \<Rightarrow> codepoint \<Rightarrow> real" where
  "paddedHeight env fnt char =
     (let height = fmul (measureTextHeight env char) (fontScale fnt)
      in fadd height (fmul (scaledPadding fnt) 2))"

text \<open>
  The local variables of the loop in \<open>ensureCharacters\<close>: \<open>this\<close>, the page whose canvas,
  context and texture source are current, the cursor and the height of the shelf.
\<close>

record Locals =
  font :: DynamicBitmapFont
  pageData :: PageData
  cursorX :: real
  cursorY :: real
  maxCharHeight :: real

text \<open>
  Lines 181 to 209: the shelf height is raised for a character that is not whitespace;
  then the placement test moves the cursor to a new shelf, and to a new page when the new
  shelf does not fit.
\<close>

definition placeOnShelf :: "Env \<Rightarrow> real \<Rightarrow> real \<Rightarrow> Locals \<Rightarrow> codepoint \<Rightarrow> Locals" where
  "placeOnShelf env maxTextureWidth maxTextureHeight l char =
     (let pw = paddedWidth env (font l) char;
          ph = paddedHeight env (font l) char;
          l1 = (if \<not> isWhitespace char
                then l\<lparr>maxCharHeight := ceil (max ph (maxCharHeight l))\<rparr> else l)
      in if fadd (cursorX l1) pw > maxTextureWidth
         then (let l2 = l1\<lparr>cursorY := fadd (cursorY l1) (maxCharHeight l1),
                           maxCharHeight := ph,
                           cursorX := 0\<rparr>
               in if fadd (cursorY l2) (maxCharHeight l2) > maxTextureHeight
                  then (let updated = (font l2)\<lparr>uploaded :=
                                         uploaded (font l2) @ [pageIndex (pageData l2)]\<rparr>;
                            np = nextPage env updated
                        in l2\<lparr>font := fst np, pageData := snd np, cursorY := 0\<rparr>)
                  else l2)
         else l1)"

definition glyphFrame :: "DynamicBitmapFont \<Rightarrow> PageData \<Rightarrow> real \<Rightarrow> real \<Rightarrow> real \<Rightarrow> real \<Rightarrow> Rectangle"
  where
  "glyphFrame fnt pd cx cy pw ph =
     (let px = fmul (sourceWidth pd) (fontScale fnt);
          py = fmul (sourceHeight pd) (fontScale fnt)
      in \<lparr>rect_x = fmul (fdiv cx px) (sourceWidth pd),
          rect_y = fmul (fdiv cy py) (sourceHeight pd),
          rect_width = fmul (fdiv pw px) (sourceWidth pd),
          rect_height = fmul (fdiv ph py) (sourceHeight pd)\<rparr>)"

text \<open>
  Lines 211 to 252: the glyph record is stored, and a character that is not whitespace is
  drawn, gets its texture and advances the cursor.
\<close>

definition recordGlyph :: "Env \<Rightarrow> Locals \<Rightarrow> codepoint \<Rightarrow> Locals" where
  "recordGlyph env l char =
     (let fnt = font l;
          charWidth = measureTextWidth env [char];
          pw = paddedWidth env fnt char;
          ph = paddedHeight env fnt char;
          xAdv = fsub (fsub charWidth (case dropShadow (style fnt) of None \<Rightarrow> 0 | Some d \<Rightarrow> d))
                   (case stroke (style fnt) of None \<Rightarrow> 0 | Some w \<Rightarrow> w);
          g = \<lparr>id_code = char, xOffset = - padding fnt, yOffset = - padding fnt,
               xAdvance = xAdv, kerning = Map.empty, texture = None\<rparr>
      in if \<not> isWhitespace char
         then l\<lparr>font := fnt\<lparr>chars := (chars fnt)(char \<mapsto>
                             g\<lparr>texture := Some \<lparr>source = pageIndex (pageData l),
                                   frame = glyphFrame fnt (pageData l) (cursorX l) (cursorY l) pw ph\<rparr>\<rparr>),
                           drawn := drawn fnt @
                             [\<lparr>draw_page = pageIndex (pageData l), draw_char = char,
                               draw_x = fadd (cursorX l) (scaledPadding fnt),
                               draw_y = fadd (cursorY l) (scaledPadding fnt)\<rparr>]\<rparr>,
                 cursorX := fadd (cursorX l) (ceil pw)\<rparr>
         else l\<lparr>font := fnt\<lparr>chars := (chars fnt)(char \<mapsto> g)\<rparr>\<rparr>)"

definition packChar :: "Env \<Rightarrow> real \<Rightarrow> real \<Rightarrow> Locals \<Rightarrow> codepoint \<Rightarrow> Locals" where
  "packChar env maxTextureWidth maxTextureHeight l char =
     (let measuredFont = (font l)\<lparr>measured := measured (font l) @ [[char]]\<rparr>
      in recordGlyph env
           (placeOnShelf env maxTextureWidth maxTextureHeight (l\<lparr>font := measuredFont\<rparr>) char)
           char)"

section \<open>Kerning\<close>

definition cachedWidth :: "Env \<Rightarrow> codepoint \<Rightarrow> DynamicBitmapFont \<Rightarrow> real \<times> DynamicBitmapFont" where
  \<comment> \<open>\<open>let c = measureCache[ch]; if (!c) c = measureCache[ch] = measureTextWidth(ch)\<close>\<close>
  "cachedWidth env ch fnt =
     (let fresh = (measureTextWidth env [ch],
                   fnt\<lparr>measureCache := (measureCache fnt)(ch \<mapsto> measureTextWidth env [ch]),
                       measured := measured fnt @ [[ch]]\<rparr>)
      in case measureCache fnt ch of
           None \<Rightarrow> fresh
         | Some c \<Rightarrow> if c = 0 then fresh else (c, fnt))"

definition setKerning ::
  "codepoint \<Rightarrow> codepoint \<Rightarrow> real \<Rightarrow> DynamicBitmapFont \<Rightarrow> error + DynamicBitmapFont" where
  \<comment> \<open>\<open>this.chars[a].kerning[b] = amount\<close>\<close>
  "setKerning a b amount fnt =
     (case chars fnt a of
        None \<Rightarrow> Inl TypeError
      | Some g \<Rightarrow> Inr (fnt\<lparr>chars := (chars fnt)(a \<mapsto> g\<lparr>kerning := (kerning g)(b \<mapsto> amount)\<rparr>)\<rparr>))"

definition kernPair ::
  "Env \<Rightarrow> codepoint \<Rightarrow> DynamicBitmapFont \<Rightarrow> codepoint \<Rightarrow> error + DynamicBitmapFont" where
  "kernPair env first fnt second =
     (let m1 = cachedWidth env first fnt;
          m2 = cachedWidth env second (snd m1);
          c1 = fst m1;
          c2 = fst m2;
          total = measureTextWidth env [first, second];
          f3 = (snd m2)\<lparr>measured := measured (snd m2) @ [[first, second]]\<rparr>;
          amount = fsub total (fadd c1 c2)
      in case (if amount \<noteq> 0 then setKerning first second amount f3 else Inr f3) of
           Inl e \<Rightarrow> Inl e
         | Inr f4 \<Rightarrow>
             (let total2 = measureTextWidth env [first, second];
                  f5 = f4\<lparr>measured := measured f4 @ [[first, second]]\<rparr>;
                  amount2 = fsub total2 (fadd c1 c2)
              in if amount2 \<noteq> 0 then setKerning second first amount2 f5 else Inr f5))"

fun forEach :: "('s \<Rightarrow> 'a \<Rightarrow> error + 's) \<Rightarrow> 'a list \<Rightarrow> 's \<Rightarrow> error + 's" where
  "forEach body [] s = Inr s"
| "forEach body (v # vs) s =
     (case body s v of Inl e \<Rightarrow> Inl e | Inr s' \<Rightarrow> forEach body vs s')"

definition applyKerning ::
  "Env \<Rightarrow> codepoint list \<Rightarrow> DynamicBitmapFont \<Rightarrow> error + DynamicBitmapFont" where
  "applyKerning env newChars fnt =
     forEach (\<lambda>f first. forEach (kernPair env first) (currentChars f) f) newChars fnt"

section \<open>ensureCharacters\<close>

definition currentPage :: "Env \<Rightarrow> DynamicBitmapFont \<Rightarrow> error + DynamicBitmapFont \<times> PageData" where
  "currentPage env fnt =
     (if currentPageIndex fnt = - 1 then Inr (nextPage env fnt)
      else case pages fnt (currentPageIndex fnt) of
             None \<Rightarrow> Inl TypeError
           | Some pd \<Rightarrow> Inr (fnt, pd))"

definition packLoop :: "Env \<Rightarrow> codepoint list \<Rightarrow> DynamicBitmapFont \<Rightarrow> PageData \<Rightarrow> Locals" where
  \<comment> \<open>lines 140 to 255: the locals are initialised and the loop runs over \<open>charList\<close>\<close>
  "packLoop env charList fnt pd =
     foldl (packChar env (fdiv (canvasWidth pd) (resolution fnt))
              (fdiv (canvasHeight pd) (resolution fnt)))
       \<lparr>font = fnt, pageData = pd, cursorX = currentX fnt, cursorY = currentY fnt,
        maxCharHeight = 0\<rparr>
       charList"

definition packAll ::
  "Env \<Rightarrow> codepoint list \<Rightarrow> DynamicBitmapFont \<Rightarrow> PageData \<Rightarrow> DynamicBitmapFont" where
  \<comment> \<open>the loop, then lines 257 to 260: the upload and the cursor written back\<close>
  "packAll env charList fnt pd =
     (let l = packLoop env charList fnt pd
      in (font l)\<lparr>uploaded := uploaded (font l) @ [pageIndex (pageData l)],
                  currentX := cursorX l,
                  currentY := cursorY l\<rparr>)"

definition ensureCharacters ::
  "Env \<Rightarrow> string \<Rightarrow> DynamicBitmapFont \<Rightarrow> error + DynamicBitmapFont" where
  "ensureCharacters env str fnt =
     (let charList = charListOf env str fnt
      in if charList = [] then Inr fnt
         else case currentPage env (fnt\<lparr>currentChars := currentChars fnt @ charList\<rparr>) of
                Inl e \<Rightarrow> Inl e
              | Inr (fnt2, pd) \<Rightarrow>
                  (let fnt3 = packAll env charList fnt2 pd
                   in if skipKerning fnt3 then applyKerning env charList fnt3 else Inr fnt3))"

section \<open>The MSDF shader bits\<close>

text \<open>
  \<open>mSDFBit.ts\<close> holds one fragment function in two shading languages. Both are embedded
  over the reals. The built-ins \<open>smoothstep\<close>, \<open>mix\<close>, \<open>dot\<close> and \<open>pow\<close> are given by
  the same formulas in the WGSL and the GLSL specifications; \<open>pow\<close> is the real power.
\<close>

record vec4 =
  chan_r :: real
  chan_g :: real
  chan_b :: real
  chan_a :: real

definition clamp :: "real \<Rightarrow> real \<Rightarrow> real \<Rightarrow> real" where
  "clamp v lo hi = min (max v lo) hi"

definition smoothstep :: "real \<Rightarrow> real \<Rightarrow> real \<Rightarrow> real" where
  "smoothstep edge0 edge1 v =
     (let t = clamp ((v - edge0) / (edge1 - edge0)) 0 1 in t * t * (3 - 2 * t))"

definition mix :: "real \<Rightarrow> real \<Rightarrow> real \<Rightarrow> real" where
  "mix a b t = a * (1 - t) + b * t"

definition dot3 :: "real \<times> real \<times> real \<Rightarrow> real \<times> real \<times> real \<Rightarrow> real" where
  "dot3 u v = (case u of (u1, u2, u3) \<Rightarrow> case v of (v1, v2, v3) \<Rightarrow> u1 * v1 + u2 * v2 + u3 * v3)"

definition pow :: "real \<Rightarrow> real \<Rightarrow> real" where
  "pow b e = b powr e"

definition calculateMSDFAlpha_wgsl :: "vec4 \<Rightarrow> vec4 \<Rightarrow> real \<Rightarrow> real" where
  "calculateMSDFAlpha_wgsl msdfColor shapeColor distance =
     (let median0 = chan_r msdfColor + chan_g msdfColor + chan_b msdfColor
                    - min (chan_r msdfColor) (min (chan_g msdfColor) (chan_b msdfColor))
                    - max (chan_r msdfColor) (max (chan_g msdfColor) (chan_b msdfColor));
          median = min median0 (chan_a msdfColor);
          screenPxDistance = distance * (median - 0.5);
          pixelRange0 = distance * 0.02;
          pixelRange = max pixelRange0 0.1;
          alpha0 = smoothstep (- pixelRange) pixelRange screenPxDistance;
          alpha = (if median < 0.05 then 0
                   else if median > 0.95 then 1
                   else smoothstep 0.45 0.55 alpha0);
          luma = dot3 (chan_r shapeColor, chan_g shapeColor, chan_b shapeColor)
                   (0.299, 0.587, 0.114);
          gamma = mix 1 (1 / 1.8) luma;
          coverage = pow (chan_a shapeColor * alpha) gamma
      in coverage)"

definition calculateMSDFAlpha_glsl :: "vec4 \<Rightarrow> vec4 \<Rightarrow> real \<Rightarrow> real" where
  "calculateMSDFAlpha_glsl msdfColor shapeColor distance =
     (let median0 = chan_r msdfColor + chan_g msdfColor + chan_b msdfColor
                    - min (chan_r msdfColor) (min (chan_g msdfColor) (chan_b msdfColor))
                    - max (chan_r msdfColor) (max (chan_g msdfColor) (chan_b msdfColor));
          median = min median0 (chan_a msdfColor);
          screenPxDistance = distance * (median - 0.5);
          pixelRange0 = distance * 0.02;
          pixelRange = max pixelRange0 0.1;
          alpha0 = smoothstep (- pixelRange) pixelRange screenPxDistance;
          alpha = (if median < 0.05 then 0
                   else if median > 0.95 then 1
                   else smoothstep 0.45 0.55 alpha0);
          luma = dot3 (chan_r shapeColor, chan_g shapeColor, chan_b shapeColor)
                   (0.299, 0.587, 0.114);
          gamma = mix 1 (1 / 1.8) luma;
          coverage = pow (chan_a shapeColor * alpha) gamma
      in coverage)"

section \<open>Vocabulary of the proofs\<close>

text \<open>
  The definitions of this section are not code of the repository: they name what the
  lemmas below talk about.
\<close>

text \<open>The elements of a list in the order of their first occurrence, skipping a set.\<close>

fun uniqAcc :: "'a set \<Rightarrow> 'a list \<Rightarrow> 'a list" where
  "uniqAcc seen [] = []"
| "uniqAcc seen (x # xs) = (if x \<in> seen then uniqAcc seen xs else x # uniqAcc (insert x seen) xs)"

text \<open>
  \<open>kerningOnly f f'\<close>: \<open>f'\<close> differs from \<open>f\<close> at most in the kerning tables of its glyph
  records, in the measure cache and in the list of measurements.
\<close>

definition kerningOnly :: "DynamicBitmapFont \<Rightarrow> DynamicBitmapFont \<Rightarrow> bool" where
  "kerningOnly f f' \<longleftrightarrow>
     (\<exists>ch mc ms. f' = f\<lparr>chars := ch, measureCache := mc, measured := ms\<rparr>) \<and>
     (\<forall>c. case chars f c of
            None \<Rightarrow> chars f' c = None
          | Some g \<Rightarrow> (\<exists>k. chars f' c = Some (g\<lparr>kerning := k\<rparr>)))"

text \<open>
  \<open>packingOnly f f'\<close>: \<open>f'\<close> differs from \<open>f\<close> at most in the fields the packing loop
  writes.
\<close>

definition packingOnly :: "DynamicBitmapFont \<Rightarrow> DynamicBitmapFont \<Rightarrow> bool" where
  "packingOnly f f' \<longleftrightarrow>
     (\<exists>ch pg ix dr up ms. f' = f\<lparr>chars := ch, pages := pg, currentPageIndex := ix,
            drawn := dr, uploaded := up, measured := ms\<rparr>)"

text \<open>
  A font on which \<open>ensureCharacters\<close> cannot raise: the current page exists, and every
  known character has a glyph record.
\<close>

definition wellFormed :: "DynamicBitmapFont \<Rightarrow> bool" where
  "wellFormed fnt \<longleftrightarrow>
     (currentPageIndex fnt = - 1 \<or> currentPageIndex fnt \<in> dom (pages fnt)) \<and>
     set (currentChars fnt) \<subseteq> dom (chars fnt)"

text \<open>The page record that \<open>_nextPage\<close> builds, by its index.\<close>

definition pageAt :: "Env \<Rightarrow> DynamicBitmapFont \<Rightarrow> int \<Rightarrow> PageData" where
  "pageAt env f i =
     (let canvas = getOptimalCanvasAndContext env (textureSize f) (textureSize f) (resolution f);
          res = fmul (resolution f) (fdiv (baseRenderedFontSize f) (baseMeasurementFontSize f));
          src = imageSourceSize env (fst canvas) (snd canvas) res
      in \<lparr>pageIndex = i, canvasWidth = fst canvas, canvasHeight = snd canvas,
          sourceWidth = fst src, sourceHeight = snd src, sourceResolution = res\<rparr>)"

text \<open>
  The shelf height after line 187, the test of line 189 and the test of line 197, as
  functions of the locals before the step.
\<close>

definition shelfHeight :: "Env \<Rightarrow> Locals \<Rightarrow> codepoint \<Rightarrow> real" where
  "shelfHeight env l c =
     (if isWhitespace c then maxCharHeight l
      else ceil (max (paddedHeight env (font l) c) (maxCharHeight l)))"

definition wraps :: "Env \<Rightarrow> real \<Rightarrow> Locals \<Rightarrow> codepoint \<Rightarrow> bool" where
  "wraps env mw l c \<longleftrightarrow> fadd (cursorX l) (paddedWidth env (font l) c) > mw"

definition overflows :: "Env \<Rightarrow> real \<Rightarrow> real \<Rightarrow> Locals \<Rightarrow> codepoint \<Rightarrow> bool" where
  "overflows env mw mh l c \<longleftrightarrow>
     wraps env mw l c \<and>
     fadd (fadd (cursorY l) (shelfHeight env l c)) (paddedHeight env (font l) c) > mh"



text \<open>
  Magnitudes far from the ends of the range of doubles, where no operation of the frame
  computation overflows or underflows: a source dimension or a scale between
  \<open>2 ^ -100\<close> and \<open>2 ^ 100\<close>, and a coordinate that is zero or between these.
\<close>

definition moderate :: "real \<Rightarrow> bool" where
  "moderate x \<longleftrightarrow> 1 / 2 ^ 100 \<le> \<bar>x\<bar> \<and> \<bar>x\<bar> \<le> 2 ^ 100"

definition pixel :: "real \<Rightarrow> bool" where
  "pixel v \<longleftrightarrow> v = 0 \<or> moderate v"

text \<open>The locals once the width of the character has been measured (line 162).\<close>

definition measuring :: "Locals \<Rightarrow> codepoint \<Rightarrow> Locals" where
  "measuring l c = l\<lparr>font := (font l)\<lparr>measured := measured (font l) @ [[c]]\<rparr>\<rparr>"

text \<open>
  \<open>onGrid env fnt pw ph l row col\<close>: the locals after \<open>col\<close> glyphs of padded size \<open>pw\<close> by
  \<open>ph\<close> on shelf number \<open>row\<close> of the first page.
\<close>

definition onGrid ::
  "Env \<Rightarrow> DynamicBitmapFont \<Rightarrow> real \<Rightarrow> real \<Rightarrow> Locals \<Rightarrow> nat \<Rightarrow> nat \<Rightarrow> bool" where
  "onGrid env fnt pw ph l row col \<longleftrightarrow>
     cursorX l = real col * ceil pw \<and> cursorY l = real row * ceil ph \<and>
     maxCharHeight l \<le> ceil ph \<and>
     pageData l = pageAt env fnt 0 \<and> currentPageIndex (font l) = 0 \<and>
     pages (font l) = [0 \<mapsto> pageAt env fnt 0] \<and>
     (\<forall>c. paddedWidth env (font l) c = paddedWidth env fnt c) \<and>
     (\<forall>c. paddedHeight env (font l) c = paddedHeight env fnt c) \<and>
     (\<forall>i. pageAt env (font l) i = pageAt env fnt i) \<and>
     (\<forall>pd a b w h. glyphFrame (font l) pd a b w h = glyphFrame fnt pd a b w h)"

section \<open>Example fonts\<close>

text \<open>
  A measuring collaborator with a few widths and heights, a canvas pool that returns a
  canvas of the requested size times the resolution, and a font with a page of 64 by 64
  pixels, no padding and a scale of one.
\<close>

definition demoEnv :: Env where
  "demoEnv =
     \<lparr>resolveCharacters = map of_char,
      measureTextWidth =
        (\<lambda>t. if t = [65] then 30 else if t = [86] then 28
             else if t = [65, 86] then 53 else if t = [86, 65] then 54
             else if t = [65, 65] then 60 else if t = [86, 86] then 56
             else if t = [97] then 40 else if t = [98] then 40 else if t = [99] then 10
             else if t = [100] then 40 else if t = [101] then 40
             else if t = [32] then 30 else 0),
      measureTextHeight = (\<lambda>c. if c = 99 then 50 else if c = 101 then 70 else 30),
      getOptimalCanvasAndContext = (\<lambda>w h r. (fmul w r, fmul h r)),
      imageSourceSize = (\<lambda>w h r. (fdiv w r, fdiv h r))\<rparr>"

definition demoOptions :: DynamicBitmapFontOptions where
  "demoOptions =
     \<lparr>opt_style = \<lparr>fontSize = 100, italic = False, stroke = None, dropShadow = None\<rparr>,
      opt_skipKerning = None, opt_resolution = None, opt_padding = Some 0,
      opt_overrideSize = False, opt_textureSize = Some 64\<rparr>"

definition demoFont :: DynamicBitmapFont where
  "demoFont = newDynamicBitmapFont 100 100 demoOptions"

text \<open>
  Options with \<open>overrideSize\<close> and a stroke 10 wide, by requested font size; a font
  scaled by one half with locals on its first page; the demo font with
  \<open>skipKerning: true\<close>.
\<close>

definition strokeOptions :: "real \<Rightarrow> DynamicBitmapFontOptions" where
  "strokeOptions requested =
     \<lparr>opt_style = \<lparr>fontSize = requested, italic = False, stroke = Some 10, dropShadow = None\<rparr>,
      opt_skipKerning = None, opt_resolution = None, opt_padding = Some 0,
      opt_overrideSize = True, opt_textureSize = Some 64\<rparr>"

definition halfFont :: DynamicBitmapFont where
  "halfFont = newDynamicBitmapFont 100 100
     (demoOptions\<lparr>opt_style := \<lparr>fontSize = 50, italic = False, stroke = None, dropShadow = None\<rparr>\<rparr>)"

definition halfLocals :: Locals where
  "halfLocals = \<lparr>font = halfFont, pageData = pageAt demoEnv halfFont 0,
                  cursorX = 10, cursorY = 20, maxCharHeight = 15\<rparr>"

definition kerningFont :: DynamicBitmapFont where
  "kerningFont = newDynamicBitmapFont 100 100 (demoOptions\<lparr>opt_skipKerning := Some True\<rparr>)"

text \<open>
  A collaborator that measures every character 21 wide and 29.75 high, and the demo font
  with a padding of one eighth: the padded box of every glyph is 21.25 by 30.
\<close>

definition gridEnv :: Env where
  "gridEnv = demoEnv\<lparr>measureTextWidth := (\<lambda>t. 21), measureTextHeight := (\<lambda>c. 119 / 4)\<rparr>"

definition gridFont :: DynamicBitmapFont where
  "gridFont = newDynamicBitmapFont 100 100 (demoOptions\<lparr>opt_padding := Some (1 / 8)\<rparr>)"

text \<open>
  A collaborator that measures every character 50 wide and 100 high, and a font of size
  26 on pages of 512 by 512: its scale is the double nearest to 0.26.
\<close>

definition scaleEnv :: Env where
  "scaleEnv = demoEnv\<lparr>measureTextWidth := (\<lambda>t. 50), measureTextHeight := (\<lambda>c. 100)\<rparr>"

definition scaledFont :: DynamicBitmapFont where
  "scaledFont = newDynamicBitmapFont 100 100
     (demoOptions\<lparr>opt_style := \<lparr>fontSize = 26, italic = False, stroke = None, dropShadow = None\<rparr>,
                  opt_textureSize := Some 512\<rparr>)"

section \<open>Rounding to a double\<close>

lemma rhe_int [simp]: "roundHalfEven (of_int n) = n"
  by (simp add: roundHalfEven_def)

lemma rhe_cases: "roundHalfEven q = \<lfloor>q\<rfloor> \<or> roundHalfEven q = \<lfloor>q\<rfloor> + 1"
  by (simp add: roundHalfEven_def Let_def)

lemma rhe_error: "\<bar>of_int (roundHalfEven q) - q\<bar> \<le> 1 / 2"
  unfolding roundHalfEven_def Let_def by (auto simp: abs_if) linarith+

lemma rhe_mono:
  assumes "q \<le> r"
  shows "roundHalfEven q \<le> roundHalfEven r"
proof (cases "\<lfloor>q\<rfloor> = \<lfloor>r\<rfloor>")
  case True
  with assms show ?thesis by (auto simp: roundHalfEven_def Let_def)
next
  case False
  with assms have "\<lfloor>q\<rfloor> < \<lfloor>r\<rfloor>" using floor_mono [OF assms] by linarith
  moreover have "roundHalfEven q \<le> \<lfloor>q\<rfloor> + 1" using rhe_cases [of q] by auto
  moreover have "\<lfloor>r\<rfloor> \<le> roundHalfEven r" using rhe_cases [of r] by auto
  ultimately show ?thesis by linarith
qed

lemma rhe_minus: "roundHalfEven (- q) = - roundHalfEven q"
proof (cases "q \<in> \<int>")
  case True
  then obtain n where "q = of_int n" by (auto elim: Ints_cases)
  then show ?thesis by (simp flip: of_int_minus)
next
  case False
  then have ne: "q \<noteq> of_int \<lfloor>q\<rfloor>" by (metis Ints_of_int)
  then have f: "\<lfloor>- q\<rfloor> = - \<lfloor>q\<rfloor> - 1"
    by (simp add: floor_minus ceiling_altdef)
  have lt: "of_int \<lfloor>q\<rfloor> < q" using ne of_int_floor_le [of q] by linarith
  show ?thesis
    unfolding roundHalfEven_def Let_def f using lt by (auto simp: algebra_simps)
qed

lemma rhe_bound:
  assumes "\<bar>q\<bar> < 2 ^ 53"
  shows "\<bar>roundHalfEven q\<bar> \<le> 2 ^ 53"
proof -
  have "roundHalfEven q \<le> roundHalfEven (of_int (2 ^ 53))"
    using assms by (intro rhe_mono) simp
  moreover have "roundHalfEven (of_int (- (2 ^ 53))) \<le> roundHalfEven q"
    using assms by (intro rhe_mono) simp
  ultimately show ?thesis unfolding rhe_int by simp
qed

text \<open>The exponent of the last place of a number, and the number in units of it.\<close>

lemma fl_0 [simp]: "fl 0 = 0"
  by (simp add: fl_def)

lemma pow2_add_nat: "(2::real) powr real_of_int (k + int n) = 2 powr real_of_int k * 2 ^ n"
  by (simp add: powr_add powr_realpow)

lemma pow2_shift:
  "(2::real) powr real_of_int k = 2 ^ 52 * 2 powr real_of_int (k - 52)"
  "(2::real) powr real_of_int (k + 1) = 2 ^ 53 * 2 powr real_of_int (k - 52)"
  using pow2_add_nat [of "k - 52" 52] pow2_add_nat [of "k - 52" 53] by (simp_all add: add.commute)

lemma binade:
  assumes "x \<noteq> 0"
  shows "(2::real) powr of_int \<lfloor>log 2 \<bar>x\<bar>\<rfloor> \<le> \<bar>x\<bar>"
    and "\<bar>x\<bar> < (2::real) powr of_int (\<lfloor>log 2 \<bar>x\<bar>\<rfloor> + 1)"
  using floor_log_eq_powr_iff [of "\<bar>x\<bar>" 2 "\<lfloor>log 2 \<bar>x\<bar>\<rfloor>"] assms by simp_all

lemma binade_eq:
  assumes "(2::real) powr of_int k \<le> \<bar>x\<bar>" "\<bar>x\<bar> < (2::real) powr of_int (k + 1)"
  shows "\<lfloor>log 2 \<bar>x\<bar>\<rfloor> = k"
proof -
  from assms(1) have "0 < \<bar>x\<bar>" by (smt (verit) powr_gt_zero)
  with assms show ?thesis by (simp add: floor_log_eq_powr_iff)
qed

lemma fl_unfold:
  assumes "x \<noteq> 0" "E = max \<lfloor>log 2 \<bar>x\<bar>\<rfloor> (- 1022)"
  shows "fl x = of_int (roundHalfEven (x / (2::real) powr of_int (E - 52))) * 2 powr of_int (E - 52)"
  using assms by (simp add: fl_def Let_def)

lemma mantissa_less:
  assumes "x \<noteq> 0" "\<lfloor>log 2 \<bar>x\<bar>\<rfloor> \<le> E"
  shows "\<bar>x / (2::real) powr of_int (E - 52)\<bar> < 2 ^ 53"
proof -
  have "\<bar>x\<bar> < (2::real) powr of_int (\<lfloor>log 2 \<bar>x\<bar>\<rfloor> + 1)" using assms(1) by (rule binade)
  also have "\<dots> \<le> (2::real) powr of_int (E + 1)" using assms(2) by simp
  also have "\<dots> = 2 ^ 53 * (2::real) powr of_int (E - 52)" by (rule pow2_shift)
  finally show ?thesis by (simp add: abs_divide field_simps)
qed

lemma mantissa_ge:
  assumes "x \<noteq> 0"
  shows "2 ^ 52 \<le> \<bar>x / (2::real) powr of_int (\<lfloor>log 2 \<bar>x\<bar>\<rfloor> - 52)\<bar>"
proof -
  have "2 ^ 52 * (2::real) powr of_int (\<lfloor>log 2 \<bar>x\<bar>\<rfloor> - 52) \<le> \<bar>x\<bar>"
    using binade(1) [OF assms] pow2_shift(1) [of "\<lfloor>log 2 \<bar>x\<bar>\<rfloor>"] by simp
  then show ?thesis by (simp add: abs_divide field_simps)
qed

text \<open>
  A number with at most 53 significant bits and a last place of \<open>2\<^sup>-\<^sup>1\<^sup>0\<^sup>7\<^sup>4\<close> or more is a
  double; rounding returns doubles.
\<close>

lemma fl_repr_strict:
  assumes "\<bar>m\<bar> < 2 ^ 53" "- 1074 \<le> e"
  shows "fl (of_int m * (2::real) powr of_int e) = of_int m * (2::real) powr of_int e"
proof (cases "m = 0")
  case True
  then show ?thesis by simp
next
  case False
  define x :: real where "x = of_int m * 2 powr of_int e"
  define L where "L = \<lfloor>log 2 \<bar>x\<bar>\<rfloor>"
  define E where "E = max L (- 1022)"
  from False have x0: "x \<noteq> 0" by (simp add: x_def)
  have ax: "\<bar>x\<bar> = of_int \<bar>m\<bar> * 2 powr of_int e" by (simp add: x_def abs_mult)
  from assms have "(of_int \<bar>m\<bar> :: real) < 2 ^ 53"
    by (metis of_int_less_numeral_power_cancel_iff)
  then have "\<bar>x\<bar> < 2 ^ 53 * (2::real) powr of_int e" unfolding ax by simp
  also have "\<dots> = (2::real) powr of_int (e + 53)"
    using pow2_add_nat [of e 53] by simp
  finally have "(2::real) powr of_int L < (2::real) powr of_int (e + 53)"
    using binade(1) [OF x0] unfolding L_def by linarith
  then have "L - 52 \<le> e" by simp
  with assms(2) have le: "E - 52 \<le> e" by (simp add: E_def)
  define k where "k = nat (e - (E - 52))"
  from le have "e = (E - 52) + int k" by (simp add: k_def)
  then have pk: "(2::real) powr of_int e = 2 powr of_int (E - 52) * 2 ^ k"
    using pow2_add_nat [of "E - 52" k] by simp
  have "x / 2 powr of_int (E - 52) = of_int (m * 2 ^ k)"
    unfolding x_def pk by simp
  then have "roundHalfEven (x / 2 powr of_int (E - 52)) = m * 2 ^ k"
    by (simp only: rhe_int)
  with fl_unfold [OF x0, of E]
  have "fl x = of_int (m * 2 ^ k) * 2 powr of_int (E - 52)"
    by (simp add: E_def L_def)
  also have "\<dots> = x" unfolding x_def pk by simp
  finally show ?thesis unfolding x_def .
qed

lemma fl_repr:
  assumes "\<bar>m\<bar> \<le> 2 ^ 53" "- 1074 \<le> e"
  shows "fl (of_int m * (2::real) powr of_int e) = of_int m * (2::real) powr of_int e"
proof (cases "\<bar>m\<bar> < 2 ^ 53")
  case True
  then show ?thesis using assms(2) by (rule fl_repr_strict)
next
  case False
  with assms have "\<bar>m\<bar> = 2 ^ 53" by simp
  then have m: "\<bar>m\<bar> = 9007199254740992" by simp
  then have "m = 2 * (m div 2)" by presburger
  then have "(of_int m :: real) = of_int (m div 2) * 2"
    by (metis mult.commute of_int_mult of_int_numeral)
  then have e: "of_int m * (2::real) powr of_int e = of_int (m div 2) * (2::real) powr of_int (e + 1)"
    by (simp add: powr_add)
  from m have "\<bar>m div 2\<bar> < 9007199254740992" by presburger
  then have "\<bar>m div 2\<bar> < 2 ^ 53" by simp
  moreover from assms(2) have "- 1074 \<le> e + 1" by simp
  ultimately show ?thesis unfolding e by (rule fl_repr_strict)
qed

lemma fl_of_int: "\<bar>n\<bar> \<le> 2 ^ 53 \<Longrightarrow> fl (of_int n) = of_int n"
  using fl_repr [of n 0] by simp

lemma fl_dyadic:
  "\<bar>n\<bar> \<le> 2 ^ 53 \<Longrightarrow> k \<le> 1074 \<Longrightarrow> fl (of_int n / 2 ^ k) = of_int n / 2 ^ k"
  using fl_repr [of n "- int k"] by (simp add: powr_minus powr_realpow field_simps)

lemma fl_fl [simp]: "fl (fl x) = fl x"
proof (cases "x = 0")
  case True
  then show ?thesis by simp
next
  case False
  define E where "E = max \<lfloor>log 2 \<bar>x\<bar>\<rfloor> (- 1022)"
  have f: "fl x = of_int (roundHalfEven (x / (2::real) powr of_int (E - 52))) * 2 powr of_int (E - 52)"
    using False E_def by (rule fl_unfold)
  have "\<bar>roundHalfEven (x / (2::real) powr of_int (E - 52))\<bar> \<le> 2 ^ 53"
    by (rule rhe_bound, rule mantissa_less [OF False]) (simp add: E_def)
  moreover have "- 1074 \<le> E - 52" by (simp add: E_def)
  ultimately show ?thesis unfolding f by (rule fl_repr)
qed

lemma fl_minus: "fl (- x) = - fl x"
  by (simp add: fl_def Let_def rhe_minus)

text \<open>Rounding keeps the sign and the order.\<close>

lemma fl_nonneg:
  assumes "0 \<le> x"
  shows "0 \<le> fl x"
proof (cases "x = 0")
  case False
  define E where "E = max \<lfloor>log 2 \<bar>x\<bar>\<rfloor> (- 1022)"
  have "roundHalfEven (of_int 0) \<le> roundHalfEven (x / (2::real) powr of_int (E - 52))"
    using assms by (intro rhe_mono) simp
  then have "0 \<le> roundHalfEven (x / (2::real) powr of_int (E - 52))" by (simp only: rhe_int)
  then have "0 \<le> of_int (roundHalfEven (x / (2::real) powr of_int (E - 52))) * (2::real) powr of_int (E - 52)"
    by simp
  then show ?thesis unfolding fl_unfold [OF False E_def] .
qed simp

lemma fl_mono_pos:
  assumes "0 < x" "x \<le> y"
  shows "fl x \<le> fl y"
proof -
  define Ex where "Ex = max \<lfloor>log 2 \<bar>x\<bar>\<rfloor> (- 1022)"
  define Ey where "Ey = max \<lfloor>log 2 \<bar>y\<bar>\<rfloor> (- 1022)"
  from assms have x0: "x \<noteq> 0" and y0: "y \<noteq> 0" by simp_all
  note fx = fl_unfold [OF x0 Ex_def] and fy = fl_unfold [OF y0 Ey_def]
  have "\<lfloor>log 2 \<bar>x\<bar>\<rfloor> \<le> \<lfloor>log 2 \<bar>y\<bar>\<rfloor>" using assms by (intro floor_mono) simp
  then have L: "Ex \<le> Ey" by (simp add: Ex_def Ey_def)
  show ?thesis
  proof (cases "Ex = Ey")
    case True
    have "x / (2::real) powr of_int (Ey - 52) \<le> y / 2 powr of_int (Ey - 52)"
      using assms by (simp add: divide_right_mono)
    then have "roundHalfEven (x / (2::real) powr of_int (Ey - 52))
        \<le> roundHalfEven (y / 2 powr of_int (Ey - 52))"
      by (rule rhe_mono)
    then show ?thesis unfolding fx fy True by simp
  next
    case False
    with L have lt: "Ex + 1 \<le> Ey" by simp
    then have n: "Ey = \<lfloor>log 2 \<bar>y\<bar>\<rfloor>" by (simp add: Ex_def Ey_def)
    have "\<bar>roundHalfEven (x / (2::real) powr of_int (Ex - 52))\<bar> \<le> 2 ^ 53"
      by (rule rhe_bound, rule mantissa_less [OF x0]) (simp add: Ex_def)
    then have "(of_int (roundHalfEven (x / (2::real) powr of_int (Ex - 52))) :: real) \<le> 2 ^ 53"
      by (metis abs_le_D1 of_int_le_numeral_power_cancel_iff)
    then have "fl x \<le> 2 ^ 53 * (2::real) powr of_int (Ex - 52)"
      unfolding fx by (simp add: mult_right_mono)
    also have "\<dots> = (2::real) powr of_int (Ex + 1)"
      by (simp only: pow2_shift(2) [of Ex])
    also have "\<dots> \<le> (2::real) powr of_int Ey" using lt by simp
    also have "\<dots> = 2 ^ 52 * (2::real) powr of_int (Ey - 52)"
      by (simp only: pow2_shift(1) [of Ey])
    also have "\<dots> \<le> fl y"
    proof -
      have "0 \<le> y / (2::real) powr of_int (Ey - 52)" using assms by simp
      with mantissa_ge [OF y0] have "of_int (2 ^ 52) \<le> y / (2::real) powr of_int (Ey - 52)"
        unfolding n by simp
      then have "roundHalfEven (of_int (2 ^ 52)) \<le> roundHalfEven (y / (2::real) powr of_int (Ey - 52))"
        by (rule rhe_mono)
      then have "(2 ^ 52 :: real) \<le> of_int (roundHalfEven (y / (2::real) powr of_int (Ey - 52)))"
        unfolding rhe_int by (metis numeral_power_le_of_int_cancel_iff)
      then show ?thesis unfolding fy by (simp add: mult_right_mono)
    qed
    finally show ?thesis .
  qed
qed

lemma fl_mono:
  assumes "x \<le> y"
  shows "fl x \<le> fl y"
proof -
  consider "0 < x" | "x \<le> 0" "0 \<le> y" | "y < 0" by linarith
  then show ?thesis
  proof cases
    case 1
    then show ?thesis using assms by (rule fl_mono_pos)
  next
    case 2
    from fl_nonneg [of "- x"] 2 have "fl x \<le> 0" by (simp add: fl_minus)
    with fl_nonneg [OF 2(2)] show ?thesis by linarith
  next
    case 3
    with assms have "0 < - y" "- y \<le> - x" by simp_all
    from fl_mono_pos [OF this] show ?thesis by (simp add: fl_minus)
  qed
qed

text \<open>The relative error of rounding, for a number in the range of normal doubles.\<close>

lemma fl_error:
  assumes "1 / 2 ^ 1022 \<le> \<bar>x\<bar>"
  shows "\<bar>fl x - x\<bar> \<le> \<bar>x\<bar> / 2 ^ 53"
proof -
  define L where "L = \<lfloor>log 2 \<bar>x\<bar>\<rfloor>"
  from assms have x0: "x \<noteq> 0" by auto
  have "(2::real) powr of_int (- 1022) = 1 / 2 ^ 1022"
    using powr_realpow [of 2 1022] by (simp add: powr_minus field_simps)
  with assms have "(2::real) powr of_int (- 1022) \<le> \<bar>x\<bar>" by simp
  also have "\<dots> < (2::real) powr of_int (L + 1)" unfolding L_def using x0 by (rule binade)
  finally have "- 1022 \<le> L" by simp
  then have E: "L = max \<lfloor>log 2 \<bar>x\<bar>\<rfloor> (- 1022)" by (simp add: L_def)
  let ?q = "x / (2::real) powr of_int (L - 52)"
  have pos: "0 < (2::real) powr of_int (L - 52)" by simp
  note fx = fl_unfold [OF x0 E]
  have "fl x - x = (of_int (roundHalfEven ?q) - ?q) * (2::real) powr of_int (L - 52)"
    unfolding fx by (simp add: algebra_simps)
  then have "\<bar>fl x - x\<bar> = \<bar>of_int (roundHalfEven ?q) - ?q\<bar> * (2::real) powr of_int (L - 52)"
    by (simp add: abs_mult)
  also have "\<dots> \<le> 1 / 2 * (2::real) powr of_int (L - 52)"
    using rhe_error [of ?q] by (intro mult_right_mono) simp_all
  also have "\<dots> \<le> \<bar>x\<bar> / 2 ^ 53"
  proof -
    from mantissa_ge [OF x0] have "2 ^ 52 * (2::real) powr of_int (L - 52) \<le> \<bar>x\<bar>"
      using pos unfolding L_def by (simp add: abs_divide field_simps)
    then show ?thesis by simp
  qed
  finally show ?thesis .
qed

text \<open>Rounding evaluated: \<open>x\<close> lies between \<open>2\<^sup>a / 2\<^sup>b\<close> and twice that.\<close>

lemma fl_eval:
  fixes a b :: nat
  assumes "2 ^ a \<le> \<bar>x\<bar> * 2 ^ b" "\<bar>x\<bar> * 2 ^ b < 2 * 2 ^ a" "b \<le> a + 1022"
  shows "fl x = of_int (roundHalfEven (x * 2 ^ (52 + b) / 2 ^ a)) * 2 ^ a / 2 ^ (52 + b)"
proof -
  have p: "(2::real) powr of_int (int a - int b) = 2 ^ a / 2 ^ b"
    by (simp add: powr_diff powr_realpow)
  have p1: "(2::real) powr of_int (int a - int b + 1) = 2 * (2 ^ a / 2 ^ b)"
    using pow2_add_nat [of "int a - int b" 1] p by simp
  have "(2::real) powr of_int (int a - int b) \<le> \<bar>x\<bar>"
    unfolding p using assms(1) by (simp add: field_simps)
  moreover have "\<bar>x\<bar> < (2::real) powr of_int (int a - int b + 1)"
    unfolding p1 using assms(2) by (simp add: field_simps)
  ultimately have "\<lfloor>log 2 \<bar>x\<bar>\<rfloor> = int a - int b" by (rule binade_eq)
  with assms(3) have E: "int a - int b = max \<lfloor>log 2 \<bar>x\<bar>\<rfloor> (- 1022)" by simp
  have x0: "x \<noteq> 0"
  proof
    assume "x = 0"
    with assms(1) have "(2::real) ^ a \<le> 0" by simp
    moreover have "(0::real) < 2 ^ a" by simp
    ultimately show False by linarith
  qed
  have "(2::real) powr of_int (int a - int b) = 2 powr of_int (int a - int b - 52) * 2 ^ 52"
    using pow2_add_nat [of "int a - int b - 52" 52] by simp
  with p have e: "(2::real) powr of_int (int a - int b - 52) = 2 ^ a / 2 ^ (52 + b)"
    by (simp add: power_add field_simps)
  show ?thesis unfolding fl_unfold [OF x0 E] e by (simp add: field_simps)
qed

lemma fl_numeral: "(numeral n :: int) \<le> 9007199254740992 \<Longrightarrow> fl (numeral n) = numeral n"
  using fl_of_int [of "numeral n"] by simp

lemma fl_neg_numeral:
  "(numeral n :: int) \<le> 9007199254740992 \<Longrightarrow> fl (- numeral n) = - numeral n"
  using fl_of_int [of "- numeral n"] by simp

lemma fl_1 [simp]: "fl 1 = 1"
  using fl_of_int [of 1] by simp

lemmas fl_simps = fadd_def fsub_def fmul_def fdiv_def fl_numeral fl_neg_numeral

section \<open>The filtered list keeps first occurrences\<close>

lemma indexOfFrom_absent: "c \<notin> set xs \<Longrightarrow> indexOfFrom xs c i = - 1"
  by (induction xs arbitrary: i) auto

lemma indexOfFrom_first:
  "c \<notin> set pre \<Longrightarrow> indexOfFrom (pre @ c # rest) c i = i + int (length pre)"
  by (induction pre arbitrary: i) auto

lemma indexOfFrom_earlier:
  "c \<in> set pre \<Longrightarrow> 0 \<le> i \<Longrightarrow> indexOfFrom (pre @ rest) c i < i + int (length pre)"
proof (induction pre arbitrary: i)
  case Nil
  then show ?case by simp
next
  case (Cons a pre)
  show ?case
  proof (cases "a = c")
    case True
    then show ?thesis by simp
  next
    case False
    with Cons.prems have "c \<in> set pre" by simp
    from Cons.IH [OF this, of "i + 1"] Cons.prems False show ?thesis by simp
  qed
qed

lemma filterIndexed_indexOf:
  "filterIndexed (\<lambda>c k. indexOf (pre @ suf) c = k) suf (int (length pre)) = uniqAcc (set pre) suf"
proof (induction suf arbitrary: pre)
  case Nil
  show ?case by simp
next
  case (Cons a suf)
  have step: "filterIndexed (\<lambda>c k. indexOf (pre @ a # suf) c = k) suf (int (length pre) + 1)
        = uniqAcc (insert a (set pre)) suf"
    using Cons.IH [of "pre @ [a]"] by (simp add: add.commute)
  show ?case
  proof (cases "a \<in> set pre")
    case True
    from indexOfFrom_earlier [OF True, of 0 "a # suf"]
    have "indexOf (pre @ a # suf) a \<noteq> int (length pre)" by (simp add: indexOf_def)
    with True step show ?thesis by (simp add: insert_absorb)
  next
    case False
    from indexOfFrom_first [OF False, of suf 0]
    have "indexOf (pre @ a # suf) a = int (length pre)" by (simp add: indexOf_def)
    with False step show ?thesis by simp
  qed
qed

lemma set_uniqAcc: "set (uniqAcc seen xs) = set xs - seen"
  by (induction xs arbitrary: seen) auto

lemma distinct_uniqAcc: "distinct (uniqAcc seen xs)"
  by (induction xs arbitrary: seen) (auto simp: set_uniqAcc)

lemma uniqAcc_distinct: "distinct xs \<Longrightarrow> set xs \<inter> seen = {} \<Longrightarrow> uniqAcc seen xs = xs"
  by (induction xs arbitrary: seen) auto

lemma charListOf_uniqAcc:
  "charListOf env str fnt =
     uniqAcc {} (filter (\<lambda>c. c \<notin> set (currentChars fnt)) (resolveCharacters env str))"
  using filterIndexed_indexOf [of "[]"] by (simp add: charListOf_def Let_def)

lemma set_charListOf:
  "set (charListOf env str fnt) = set (resolveCharacters env str) - set (currentChars fnt)"
  by (auto simp: charListOf_uniqAcc set_uniqAcc)

lemma distinct_charListOf: "distinct (charListOf env str fnt)"
  by (simp add: charListOf_uniqAcc distinct_uniqAcc)

lemma charListOf_fresh:
  "distinct (resolveCharacters env str) \<Longrightarrow>
   set (resolveCharacters env str) \<inter> set (currentChars fnt) = {} \<Longrightarrow>
   charListOf env str fnt = resolveCharacters env str"
proof -
  assume d: "distinct (resolveCharacters env str)"
    and i: "set (resolveCharacters env str) \<inter> set (currentChars fnt) = {}"
  from i have "filter (\<lambda>c. c \<notin> set (currentChars fnt)) (resolveCharacters env str)
      = resolveCharacters env str"
    by (auto simp: filter_id_conv)
  with d show ?thesis by (simp add: charListOf_uniqAcc uniqAcc_distinct)
qed

lemma charListOf_empty_iff:
  "charListOf env str fnt = [] \<longleftrightarrow> set (resolveCharacters env str) \<subseteq> set (currentChars fnt)"
  using set_charListOf [of env str fnt] by (metis Diff_eq_empty_iff set_empty)

section \<open>Changes confined to the kerning tables\<close>

lemma kerningOnlyI:
  "f' = f\<lparr>chars := ch, measureCache := mc, measured := ms\<rparr> \<Longrightarrow>
   (\<And>c. chars f c = None \<Longrightarrow> ch c = None) \<Longrightarrow>
   (\<And>c g. chars f c = Some g \<Longrightarrow> \<exists>k. ch c = Some (g\<lparr>kerning := k\<rparr>)) \<Longrightarrow>
   kerningOnly f f'"
  unfolding kerningOnly_def by (auto split: option.splits)

lemma kerningOnly_record:
  "kerningOnly f f' \<Longrightarrow> \<exists>ch mc ms. f' = f\<lparr>chars := ch, measureCache := mc, measured := ms\<rparr>"
  unfolding kerningOnly_def by blast

lemma kerningOnly_None: "kerningOnly f f' \<Longrightarrow> chars f c = None \<Longrightarrow> chars f' c = None"
proof -
  assume k: "kerningOnly f f'" and c: "chars f c = None"
  from k have "case chars f c of None \<Rightarrow> chars f' c = None
            | Some g \<Rightarrow> (\<exists>k. chars f' c = Some (g\<lparr>kerning := k\<rparr>))"
    unfolding kerningOnly_def by blast
  with c show ?thesis by simp
qed

lemma kerningOnly_glyph:
  "kerningOnly f f' \<Longrightarrow> chars f c = Some g \<Longrightarrow> \<exists>k. chars f' c = Some (g\<lparr>kerning := k\<rparr>)"
proof -
  assume k: "kerningOnly f f'" and c: "chars f c = Some g"
  from k have "case chars f c of None \<Rightarrow> chars f' c = None
            | Some g \<Rightarrow> (\<exists>k. chars f' c = Some (g\<lparr>kerning := k\<rparr>))"
    unfolding kerningOnly_def by blast
  with c show ?thesis by simp
qed

lemma kerningOnly_refl: "kerningOnly f f"
proof (rule kerningOnlyI)
  show "f = f\<lparr>chars := chars f, measureCache := measureCache f, measured := measured f\<rparr>"
    by simp
next
  fix c g assume "chars f c = Some g"
  then have "chars f c = Some (g\<lparr>kerning := kerning g\<rparr>)" by simp
  then show "\<exists>k. chars f c = Some (g\<lparr>kerning := k\<rparr>)" by blast
qed simp

lemma kerningOnly_trans:
  assumes fg: "kerningOnly f g" and gh: "kerningOnly g h"
  shows "kerningOnly f h"
proof -
  from kerningOnly_record [OF fg] obtain ch1 mc1 ms1
    where e1: "g = f\<lparr>chars := ch1, measureCache := mc1, measured := ms1\<rparr>" by blast
  from kerningOnly_record [OF gh] obtain ch2 mc2 ms2
    where e2: "h = g\<lparr>chars := ch2, measureCache := mc2, measured := ms2\<rparr>" by blast
  have eq: "h = f\<lparr>chars := ch2, measureCache := mc2, measured := ms2\<rparr>"
    unfolding e2 e1 by simp
  have ch: "chars h = ch2" unfolding e2 by simp
  show ?thesis
  proof (rule kerningOnlyI [OF eq])
    fix c assume "chars f c = None"
    with fg have "chars g c = None" by (rule kerningOnly_None)
    with gh have "chars h c = None" by (rule kerningOnly_None)
    then show "ch2 c = None" by (simp add: ch)
  next
    fix c k assume "chars f c = Some k"
    from kerningOnly_glyph [OF fg this] obtain k1
      where k1: "chars g c = Some (k\<lparr>kerning := k1\<rparr>)" by blast
    from kerningOnly_glyph [OF gh k1] obtain k2
      where "chars h c = Some (k\<lparr>kerning := k1\<rparr>\<lparr>kerning := k2\<rparr>)" by blast
    then have "ch2 c = Some (k\<lparr>kerning := k2\<rparr>)" by (simp add: ch)
    then show "\<exists>k'. ch2 c = Some (k\<lparr>kerning := k'\<rparr>)" by blast
  qed
qed

lemma kerningOnly_dom: "kerningOnly f f' \<Longrightarrow> dom (chars f') = dom (chars f)"
proof -
  assume k: "kerningOnly f f'"
  have "(chars f' c = None) = (chars f c = None)" for c
  proof (cases "chars f c")
    case None
    with k show ?thesis by (simp add: kerningOnly_None)
  next
    case (Some g)
    from kerningOnly_glyph [OF k Some] Some show ?thesis by auto
  qed
  then show ?thesis by (auto simp: dom_def)
qed

lemma kerningOnly_fields:
  assumes "kerningOnly f f'"
  shows "currentChars f' = currentChars f" "pages f' = pages f"
    "currentPageIndex f' = currentPageIndex f" "currentX f' = currentX f"
    "currentY f' = currentY f" "drawn f' = drawn f" "uploaded f' = uploaded f"
    "skipKerning f' = skipKerning f" "style f' = style f" "padding f' = padding f"
    "resolution f' = resolution f" "textureSize f' = textureSize f"
    "baseRenderedFontSize f' = baseRenderedFontSize f"
    "baseMeasurementFontSize f' = baseMeasurementFontSize f"
proof -
  from kerningOnly_record [OF assms] obtain ch mc ms
    where e: "f' = f\<lparr>chars := ch, measureCache := mc, measured := ms\<rparr>" by blast
  show "currentChars f' = currentChars f" unfolding e by simp
  show "pages f' = pages f" unfolding e by simp
  show "currentPageIndex f' = currentPageIndex f" unfolding e by simp
  show "currentX f' = currentX f" unfolding e by simp
  show "currentY f' = currentY f" unfolding e by simp
  show "drawn f' = drawn f" unfolding e by simp
  show "uploaded f' = uploaded f" unfolding e by simp
  show "skipKerning f' = skipKerning f" unfolding e by simp
  show "style f' = style f" unfolding e by simp
  show "padding f' = padding f" unfolding e by simp
  show "resolution f' = resolution f" unfolding e by simp
  show "textureSize f' = textureSize f" unfolding e by simp
  show "baseRenderedFontSize f' = baseRenderedFontSize f" unfolding e by simp
  show "baseMeasurementFontSize f' = baseMeasurementFontSize f" unfolding e by simp
qed

lemma measured_kerningOnly: "kerningOnly f (f\<lparr>measured := m\<rparr>)"
proof (rule kerningOnlyI)
  show "f\<lparr>measured := m\<rparr> = f\<lparr>chars := chars f, measureCache := measureCache f, measured := m\<rparr>"
    by simp
next
  fix c g assume "chars f c = Some g"
  then have "chars f c = Some (g\<lparr>kerning := kerning g\<rparr>)" by simp
  then show "\<exists>k. chars f c = Some (g\<lparr>kerning := k\<rparr>)" by blast
qed simp

lemma cache_kerningOnly: "kerningOnly f (f\<lparr>measureCache := mc, measured := m\<rparr>)"
proof (rule kerningOnlyI)
  show "f\<lparr>measureCache := mc, measured := m\<rparr>
        = f\<lparr>chars := chars f, measureCache := mc, measured := m\<rparr>"
    by simp
next
  fix c g assume "chars f c = Some g"
  then have "chars f c = Some (g\<lparr>kerning := kerning g\<rparr>)" by simp
  then show "\<exists>k. chars f c = Some (g\<lparr>kerning := k\<rparr>)" by blast
qed simp

lemma cachedWidth_kerningOnly: "kerningOnly f (snd (cachedWidth env c f))"
  by (simp add: cachedWidth_def Let_def cache_kerningOnly kerningOnly_refl split: option.splits)

lemma setKerning_kerningOnly:
  assumes "setKerning a b v f = Inr f'"
  shows "kerningOnly f f'"
proof -
  from assms obtain g where g: "chars f a = Some g"
    and f': "f' = f\<lparr>chars := (chars f)(a \<mapsto> g\<lparr>kerning := (kerning g)(b \<mapsto> v)\<rparr>)\<rparr>"
    by (auto simp: setKerning_def split: option.splits)
  show ?thesis
  proof (rule kerningOnlyI)
    show "f' = f\<lparr>chars := (chars f)(a \<mapsto> g\<lparr>kerning := (kerning g)(b \<mapsto> v)\<rparr>),
                 measureCache := measureCache f, measured := measured f\<rparr>"
      unfolding f' by simp
  next
    fix c assume "chars f c = None"
    with g show "((chars f)(a \<mapsto> g\<lparr>kerning := (kerning g)(b \<mapsto> v)\<rparr>)) c = None"
      by auto
  next
    fix c h assume h: "chars f c = Some h"
    show "\<exists>k. ((chars f)(a \<mapsto> g\<lparr>kerning := (kerning g)(b \<mapsto> v)\<rparr>)) c = Some (h\<lparr>kerning := k\<rparr>)"
    proof (cases "c = a")
      case True
      with g h have "h = g" by simp
      with True show ?thesis by auto
    next
      case False
      with h have "((chars f)(a \<mapsto> g\<lparr>kerning := (kerning g)(b \<mapsto> v)\<rparr>)) c
                   = Some (h\<lparr>kerning := kerning h\<rparr>)" by simp
      then show ?thesis by blast
    qed
  qed
qed

lemma setKerning_total: "a \<in> dom (chars f) \<Longrightarrow> \<exists>f'. setKerning a b v f = Inr f'"
  by (auto simp: setKerning_def split: option.splits)

lemma kernPair_kerningOnly:
  assumes "kernPair env a f b = Inr f'"
  shows "kerningOnly f f'"
proof -
  define m1 where "m1 = cachedWidth env a f"
  define m2 where "m2 = cachedWidth env b (snd m1)"
  define f3 where "f3 = (snd m2)\<lparr>measured := measured (snd m2) @ [[a, b]]\<rparr>"
  define amount where "amount = fsub (measureTextWidth env [a, b]) (fadd (fst m1) (fst m2))"
  have k3: "kerningOnly f f3"
    unfolding f3_def m2_def m1_def
    by (blast intro: kerningOnly_trans cachedWidth_kerningOnly measured_kerningOnly)
  from assms obtain f4 where
    f4: "(if amount \<noteq> 0 then setKerning a b amount f3 else Inr f3) = Inr f4"
    and f': "(if amount \<noteq> 0
              then setKerning b a amount (f4\<lparr>measured := measured f4 @ [[a, b]]\<rparr>)
              else Inr (f4\<lparr>measured := measured f4 @ [[a, b]]\<rparr>)) = Inr f'"
    unfolding kernPair_def Let_def m1_def m2_def f3_def amount_def
    by (auto split: sum.splits)
  from f4 have k4: "kerningOnly f3 f4"
    by (auto split: if_splits intro: setKerning_kerningOnly kerningOnly_refl)
  have k5: "kerningOnly f4 (f4\<lparr>measured := measured f4 @ [[a, b]]\<rparr>)"
    by (rule measured_kerningOnly)
  from f' have k6: "kerningOnly (f4\<lparr>measured := measured f4 @ [[a, b]]\<rparr>) f'"
    by (auto split: if_splits intro: setKerning_kerningOnly kerningOnly_refl)
  from k3 k4 k5 k6 show ?thesis by (blast intro: kerningOnly_trans)
qed

lemma kernPair_total:
  assumes "a \<in> dom (chars f)" "b \<in> dom (chars f)"
  shows "\<exists>f'. kernPair env a f b = Inr f'"
proof -
  define m1 where "m1 = cachedWidth env a f"
  define m2 where "m2 = cachedWidth env b (snd m1)"
  define f3 where "f3 = (snd m2)\<lparr>measured := measured (snd m2) @ [[a, b]]\<rparr>"
  define amount where "amount = fsub (measureTextWidth env [a, b]) (fadd (fst m1) (fst m2))"
  have k3: "kerningOnly f f3"
    unfolding f3_def m2_def m1_def
    by (blast intro: kerningOnly_trans cachedWidth_kerningOnly measured_kerningOnly)
  with assms have "a \<in> dom (chars f3)" by (simp add: kerningOnly_dom)
  then have "\<exists>f4. (if amount \<noteq> 0 then setKerning a b amount f3 else Inr f3) = Inr f4"
    using setKerning_total [of a f3 b amount] by (cases "amount = 0") simp_all
  then obtain f4 where
    f4: "(if amount \<noteq> 0 then setKerning a b amount f3 else Inr f3) = Inr f4" by blast
  from f4 have "kerningOnly f3 f4"
    by (auto split: if_splits intro: setKerning_kerningOnly kerningOnly_refl)
  with k3 have "kerningOnly f (f4\<lparr>measured := measured f4 @ [[a, b]]\<rparr>)"
    by (blast intro: kerningOnly_trans measured_kerningOnly)
  with assms have "b \<in> dom (chars (f4\<lparr>measured := measured f4 @ [[a, b]]\<rparr>))"
    using kerningOnly_dom by blast
  then have "\<exists>f5. (if amount \<noteq> 0
      then setKerning b a amount (f4\<lparr>measured := measured f4 @ [[a, b]]\<rparr>)
      else Inr (f4\<lparr>measured := measured f4 @ [[a, b]]\<rparr>)) = Inr f5"
    using setKerning_total [of b "f4\<lparr>measured := measured f4 @ [[a, b]]\<rparr>" a amount]
    by (cases "amount = 0") simp_all
  then obtain f5 where
    "(if amount \<noteq> 0
      then setKerning b a amount (f4\<lparr>measured := measured f4 @ [[a, b]]\<rparr>)
      else Inr (f4\<lparr>measured := measured f4 @ [[a, b]]\<rparr>)) = Inr f5" by blast
  with f4 have "kernPair env a f b = Inr f5"
    unfolding kernPair_def Let_def m1_def m2_def f3_def amount_def by simp
  then show ?thesis by blast
qed

lemma forEach_invariant:
  assumes "forEach body vs s = Inr s'" "P s"
    and "\<And>t v t'. P t \<Longrightarrow> v \<in> set vs \<Longrightarrow> body t v = Inr t' \<Longrightarrow> P t'"
  shows "P s'"
  using assms
proof (induction vs arbitrary: s)
  case Nil
  then show ?case by simp
next
  case (Cons v vs)
  from Cons.prems(1) obtain t where t: "body s v = Inr t" and r: "forEach body vs t = Inr s'"
    by (auto split: sum.splits)
  from Cons.prems(3) [OF Cons.prems(2) _ t] have pt: "P t" by simp
  show ?case
  proof (rule Cons.IH [OF r pt])
    fix u w u'
    assume pu: "P u" and w: "w \<in> set vs" and b: "body u w = Inr u'"
    from w have "w \<in> set (v # vs)" by simp
    from pu this b show "P u'" by (rule Cons.prems(3))
  qed
qed

lemma forEach_total:
  assumes "P s"
    and "\<And>t v. P t \<Longrightarrow> v \<in> set vs \<Longrightarrow> \<exists>t'. body t v = Inr t' \<and> P t'"
  shows "\<exists>s'. forEach body vs s = Inr s' \<and> P s'"
  using assms
proof (induction vs arbitrary: s)
  case Nil
  then show ?case by simp
next
  case (Cons v vs)
  have "v \<in> set (v # vs)" by simp
  from Cons.prems(2) [OF Cons.prems(1) this] obtain t where t: "body s v = Inr t" "P t"
    by blast
  have "\<exists>s'. forEach body vs t = Inr s' \<and> P s'"
  proof (rule Cons.IH [OF t(2)])
    fix u w
    assume pu: "P u" and w: "w \<in> set vs"
    from w have "w \<in> set (v # vs)" by simp
    with pu show "\<exists>t'. body u w = Inr t' \<and> P t'" by (rule Cons.prems(2))
  qed
  then obtain s' where "forEach body vs t = Inr s'" "P s'" by blast
  with t show ?case by simp
qed

lemma applyKerning_kerningOnly:
  assumes "applyKerning env newChars f = Inr f'"
  shows "kerningOnly f f'"
proof -
  have inner: "kerningOnly f t'"
    if "kerningOnly f t" and "forEach (kernPair env a) (currentChars t) t = Inr t'" for t a t'
    using that(2) that(1)
    by (rule forEach_invariant) (blast intro: kerningOnly_trans kernPair_kerningOnly)
  from assms show ?thesis
    unfolding applyKerning_def
    by (rule forEach_invariant) (auto intro: kerningOnly_refl inner)
qed

lemma applyKerning_total:
  assumes "set newChars \<subseteq> dom (chars f)" "set (currentChars f) \<subseteq> dom (chars f)"
  shows "\<exists>f'. applyKerning env newChars f = Inr f'"
proof -
  let ?P = "\<lambda>t. kerningOnly f t"
  have inner: "\<exists>t'. forEach (kernPair env a) (currentChars t) t = Inr t' \<and> ?P t'"
    if "?P t" "a \<in> set newChars" for t a
  proof (rule forEach_total [where P = ?P, OF that(1)])
    fix u v
    assume u: "kerningOnly f u" and v: "v \<in> set (currentChars t)"
    from that(1) have "currentChars t = currentChars f" by (rule kerningOnly_fields)
    with v assms(2) have "v \<in> dom (chars f)" by auto
    with u have vd: "v \<in> dom (chars u)" by (simp add: kerningOnly_dom)
    from that(2) assms(1) u have ad: "a \<in> dom (chars u)" by (auto simp: kerningOnly_dom)
    from kernPair_total [OF ad vd] obtain u' where u': "kernPair env a u v = Inr u'" by blast
    with u have "kerningOnly f u'" by (blast intro: kerningOnly_trans kernPair_kerningOnly)
    with u' show "\<exists>t'. kernPair env a u v = Inr t' \<and> kerningOnly f t'" by blast
  qed
  have "\<exists>f'. forEach (\<lambda>t a. forEach (kernPair env a) (currentChars t) t) newChars f = Inr f' \<and> ?P f'"
    by (rule forEach_total [where P = ?P]) (auto intro: kerningOnly_refl inner)
  then show ?thesis unfolding applyKerning_def by blast
qed

section \<open>Changes confined to the fields the packer writes\<close>

lemma packingOnlyI:
  "f' = f\<lparr>chars := ch, pages := pg, currentPageIndex := ix,
          drawn := dr, uploaded := up, measured := ms\<rparr> \<Longrightarrow> packingOnly f f'"
  unfolding packingOnly_def by blast

lemma packingOnly_refl: "packingOnly f f"
proof (rule packingOnlyI)
  show "f = f\<lparr>chars := chars f, pages := pages f, currentPageIndex := currentPageIndex f,
          drawn := drawn f, uploaded := uploaded f, measured := measured f\<rparr>" by simp
qed

lemma packingOnly_trans:
  assumes "packingOnly f g" "packingOnly g h"
  shows "packingOnly f h"
proof -
  from assms(1) obtain ch pg ix dr up ms where
    e1: "g = f\<lparr>chars := ch, pages := pg, currentPageIndex := ix,
          drawn := dr, uploaded := up, measured := ms\<rparr>"
    unfolding packingOnly_def by blast
  from assms(2) obtain ch2 pg2 ix2 dr2 up2 ms2 where
    e2: "h = g\<lparr>chars := ch2, pages := pg2, currentPageIndex := ix2,
          drawn := dr2, uploaded := up2, measured := ms2\<rparr>"
    unfolding packingOnly_def by blast
  show ?thesis
    by (rule packingOnlyI [where ch = ch2 and pg = pg2 and ix = ix2 and dr = dr2
          and up = up2 and ms = ms2]) (simp add: e1 e2)
qed

lemma packingOnly_fields:
  assumes "packingOnly f f'"
  shows "currentChars f' = currentChars f" "measureCache f' = measureCache f"
    "currentX f' = currentX f" "currentY f' = currentY f"
    "skipKerning f' = skipKerning f" "style f' = style f" "padding f' = padding f"
    "resolution f' = resolution f" "textureSize f' = textureSize f"
    "baseRenderedFontSize f' = baseRenderedFontSize f"
    "baseMeasurementFontSize f' = baseMeasurementFontSize f"
proof -
  from assms obtain ch pg ix dr up ms where
    e: "f' = f\<lparr>chars := ch, pages := pg, currentPageIndex := ix,
          drawn := dr, uploaded := up, measured := ms\<rparr>"
    unfolding packingOnly_def by blast
  show "currentChars f' = currentChars f" unfolding e by simp
  show "measureCache f' = measureCache f" unfolding e by simp
  show "currentX f' = currentX f" unfolding e by simp
  show "currentY f' = currentY f" unfolding e by simp
  show "skipKerning f' = skipKerning f" unfolding e by simp
  show "style f' = style f" unfolding e by simp
  show "padding f' = padding f" unfolding e by simp
  show "resolution f' = resolution f" unfolding e by simp
  show "textureSize f' = textureSize f" unfolding e by simp
  show "baseRenderedFontSize f' = baseRenderedFontSize f" unfolding e by simp
  show "baseMeasurementFontSize f' = baseMeasurementFontSize f" unfolding e by simp
qed

lemma packingOnly_derived:
  assumes "packingOnly f f'"
  shows "fontScale f' = fontScale f" "scaledPadding f' = scaledPadding f"
    "paddedWidth env f' c = paddedWidth env f c" "paddedHeight env f' c = paddedHeight env f c"
  using packingOnly_fields [OF assms]
  by (simp_all add: fontScale_def scaledPadding_def paddedWidth_def paddedHeight_def)

lemma nextPage_font:
  "fst (nextPage env f) =
     f\<lparr>currentPageIndex := currentPageIndex f + 1,
       pages := (pages f)(currentPageIndex f + 1 \<mapsto> snd (nextPage env f))\<rparr>"
  by (simp add: nextPage_def Let_def)

lemma nextPage_packingOnly: "packingOnly f (fst (nextPage env f))"
  by (rule packingOnlyI [where ch = "chars f" and dr = "drawn f" and up = "uploaded f"
        and ms = "measured f" and ix = "currentPageIndex f + 1"
        and pg = "(pages f)(currentPageIndex f + 1 \<mapsto> snd (nextPage env f))"])
     (simp add: nextPage_font)

lemma placeOnShelf_packingOnly: "packingOnly (font l) (font (placeOnShelf env mw mh l c))"
proof -
  have u: "packingOnly f (f\<lparr>uploaded := up\<rparr>)" for f up
    by (rule packingOnlyI [where ch = "chars f" and dr = "drawn f" and up = up
        and ms = "measured f" and ix = "currentPageIndex f" and pg = "pages f"]) simp
  have "packingOnly f (fst (nextPage env (f\<lparr>uploaded := up\<rparr>)))" for f up
    by (rule packingOnly_trans [OF u nextPage_packingOnly])
  then show ?thesis
    by (simp add: placeOnShelf_def Let_def packingOnly_refl)
qed

lemma placeOnShelf_chars: "chars (font (placeOnShelf env mw mh l c)) = chars (font l)"
  by (simp add: placeOnShelf_def Let_def nextPage_font)

lemma placeOnShelf_drawn: "drawn (font (placeOnShelf env mw mh l c)) = drawn (font l)"
  by (simp add: placeOnShelf_def Let_def nextPage_font)

lemma recordGlyph_packingOnly: "packingOnly (font l) (font (recordGlyph env l c))"
proof (cases "isWhitespace c")
  case True
  then show ?thesis
    by (simp add: recordGlyph_def Let_def)
       (rule packingOnlyI [where dr = "drawn (font l)" and up = "uploaded (font l)"
        and ms = "measured (font l)" and ix = "currentPageIndex (font l)" and pg = "pages (font l)"],
        simp)
next
  case False
  then show ?thesis
    by (simp add: recordGlyph_def Let_def)
       (rule packingOnlyI [where up = "uploaded (font l)"
        and ms = "measured (font l)" and ix = "currentPageIndex (font l)" and pg = "pages (font l)"],
        simp)
qed

lemma packChar_packingOnly: "packingOnly (font l) (font (packChar env mw mh l c))"
proof -
  have m: "packingOnly f (f\<lparr>measured := ms\<rparr>)" for f ms
    by (rule packingOnlyI [where ch = "chars f" and dr = "drawn f" and up = "uploaded f"
        and ix = "currentPageIndex f" and pg = "pages f"]) simp
  have "packingOnly (font l) (font (l\<lparr>font := (font l)\<lparr>measured := measured (font l) @ [[c]]\<rparr>\<rparr>))"
    using m [of "font l"] by simp
  then show ?thesis
    unfolding packChar_def Let_def
    by (blast intro: packingOnly_trans placeOnShelf_packingOnly recordGlyph_packingOnly)
qed

lemma foldl_packChar_packingOnly:
  "packingOnly (font l) (font (foldl (packChar env mw mh) l cs))"
proof (induction cs arbitrary: l)
  case Nil
  show ?case by (simp add: packingOnly_refl)
next
  case (Cons c cs)
  from packChar_packingOnly Cons.IH show ?case
    by (simp, blast intro: packingOnly_trans)
qed

text \<open>The glyph record written by one step.\<close>

lemma recordGlyph_glyph:
  "\<exists>g. chars (font (recordGlyph env l c)) c = Some g \<and> id_code g = c \<and>
        xOffset g = - padding (font l) \<and> yOffset g = - padding (font l) \<and>
        xAdvance g = fsub (fsub (measureTextWidth env [c])
                       (case dropShadow (style (font l)) of None \<Rightarrow> 0 | Some d \<Rightarrow> d))
                       (case stroke (style (font l)) of None \<Rightarrow> 0 | Some w \<Rightarrow> w) \<and>
        kerning g = Map.empty \<and>
        texture g = (if isWhitespace c then None
                     else Some \<lparr>source = pageIndex (pageData l),
                                frame = glyphFrame (font l) (pageData l) (cursorX l) (cursorY l)
                                          (paddedWidth env (font l) c) (paddedHeight env (font l) c)\<rparr>)"
  by (simp add: recordGlyph_def Let_def)

lemma recordGlyph_other: "c' \<noteq> c \<Longrightarrow> chars (font (recordGlyph env l c)) c' = chars (font l) c'"
  by (simp add: recordGlyph_def Let_def)

lemma recordGlyph_dom: "dom (chars (font (recordGlyph env l c))) = insert c (dom (chars (font l)))"
  by (simp add: recordGlyph_def Let_def)

lemma packChar_other: "c' \<noteq> c \<Longrightarrow> chars (font (packChar env mw mh l c)) c' = chars (font l) c'"
  by (simp add: packChar_def Let_def recordGlyph_other placeOnShelf_chars)

lemma packChar_dom: "dom (chars (font (packChar env mw mh l c))) = insert c (dom (chars (font l)))"
  by (simp add: packChar_def Let_def recordGlyph_dom placeOnShelf_chars)

lemma foldl_packChar_dom:
  "dom (chars (font (foldl (packChar env mw mh) l cs))) = set cs \<union> dom (chars (font l))"
  by (induction cs arbitrary: l) (auto simp: packChar_dom)

section \<open>A call on a well-formed font returns\<close>

lemma wellFormed_new: "wellFormed (newDynamicBitmapFont bm br options)"
  by (simp add: wellFormed_def newDynamicBitmapFont_def Let_def)

lemma ensureCharacters_empty:
  "charListOf env str fnt = [] \<Longrightarrow> ensureCharacters env str fnt = Inr fnt"
  by (simp add: ensureCharacters_def)

lemma ensureCharacters_packed:
  assumes "charListOf env str fnt \<noteq> []"
    and "currentPage env (fnt\<lparr>currentChars := currentChars fnt @ charListOf env str fnt\<rparr>)
         = Inr (f2, pd)"
  shows "ensureCharacters env str fnt =
           (if skipKerning (packAll env (charListOf env str fnt) f2 pd)
            then applyKerning env (charListOf env str fnt) (packAll env (charListOf env str fnt) f2 pd)
            else Inr (packAll env (charListOf env str fnt) f2 pd))"
  using assms by (simp add: ensureCharacters_def Let_def)

lemma ensureCharacters_Inr:
  assumes "ensureCharacters env str fnt = Inr f'" "charListOf env str fnt \<noteq> []"
  obtains f2 pd where
    "currentPage env (fnt\<lparr>currentChars := currentChars fnt @ charListOf env str fnt\<rparr>)
         = Inr (f2, pd)"
    "kerningOnly (packAll env (charListOf env str fnt) f2 pd) f'"
    "skipKerning f2 \<or> f' = packAll env (charListOf env str fnt) f2 pd"
proof -
  let ?cs = "charListOf env str fnt"
  from assms obtain f2 pd where
    cp: "currentPage env (fnt\<lparr>currentChars := currentChars fnt @ ?cs\<rparr>) = Inr (f2, pd)"
    by (auto simp: ensureCharacters_def Let_def split: sum.splits)
  let ?p = "packAll env ?cs f2 pd"
  from assms ensureCharacters_packed [OF assms(2) cp]
  have r: "(if skipKerning ?p then applyKerning env ?cs ?p else Inr ?p) = Inr f'" by simp
  have k: "kerningOnly ?p f'"
  proof (cases "skipKerning ?p")
    case True
    with r show ?thesis by (simp add: applyKerning_kerningOnly)
  next
    case False
    with r show ?thesis by (simp add: kerningOnly_refl)
  qed
  have "packingOnly f2 (font (packLoop env ?cs f2 pd))"
    using foldl_packChar_packingOnly [of "\<lparr>font = f2, pageData = pd, cursorX = currentX f2,
        cursorY = currentY f2, maxCharHeight = 0\<rparr>"]
    by (simp add: packLoop_def)
  then have "skipKerning ?p = skipKerning f2"
    by (simp add: packAll_def Let_def packingOnly_fields)
  with r have "skipKerning f2 \<or> f' = ?p" by (auto split: if_splits)
  with cp k that show thesis by blast
qed

lemma currentPage_packingOnly:
  assumes "currentPage env f = Inr (f2, pd)"
  shows "packingOnly f f2"
proof (cases "currentPageIndex f = - 1")
  case True
  with assms have "nextPage env f = (f2, pd)" by (simp add: currentPage_def)
  then have "f2 = fst (nextPage env f)" by simp
  then show ?thesis by (simp add: nextPage_packingOnly)
next
  case False
  with assms have "f2 = f" by (auto simp: currentPage_def split: option.splits)
  then show ?thesis by (simp add: packingOnly_refl)
qed

lemma currentPage_page:
  assumes "currentPage env f = Inr (f2, pd)"
  shows "pages f2 (currentPageIndex f2) = Some pd"
proof (cases "currentPageIndex f = - 1")
  case True
  with assms have n: "nextPage env f = (f2, pd)" by (simp add: currentPage_def)
  then have "f2 = fst (nextPage env f)" "pd = snd (nextPage env f)" by simp_all
  then show ?thesis by (simp add: nextPage_font)
next
  case False
  with assms show ?thesis by (auto simp: currentPage_def split: option.splits)
qed

lemma currentPage_total:
  "currentPageIndex f = - 1 \<or> currentPageIndex f \<in> dom (pages f) \<Longrightarrow>
   \<exists>f2 pd. currentPage env f = Inr (f2, pd)"
  by (cases "nextPage env f") (auto simp: currentPage_def)

lemma packLoop_packingOnly: "packingOnly f2 (font (packLoop env cs f2 pd))"
  using foldl_packChar_packingOnly [of "\<lparr>font = f2, pageData = pd, cursorX = currentX f2,
      cursorY = currentY f2, maxCharHeight = 0\<rparr>"]
  by (simp add: packLoop_def)

lemma packAll_kept:
  "currentChars (packAll env cs f2 pd) = currentChars f2"
  "measureCache (packAll env cs f2 pd) = measureCache f2"
  "skipKerning (packAll env cs f2 pd) = skipKerning f2"
  "style (packAll env cs f2 pd) = style f2"
  "padding (packAll env cs f2 pd) = padding f2"
  "resolution (packAll env cs f2 pd) = resolution f2"
  "textureSize (packAll env cs f2 pd) = textureSize f2"
  "baseRenderedFontSize (packAll env cs f2 pd) = baseRenderedFontSize f2"
  "baseMeasurementFontSize (packAll env cs f2 pd) = baseMeasurementFontSize f2"
  using packingOnly_fields [OF packLoop_packingOnly [of f2 env cs pd]]
  by (simp_all add: packAll_def Let_def)

lemma packAll_parts:
  "chars (packAll env cs f2 pd) = chars (font (packLoop env cs f2 pd))"
  "pages (packAll env cs f2 pd) = pages (font (packLoop env cs f2 pd))"
  "currentPageIndex (packAll env cs f2 pd) = currentPageIndex (font (packLoop env cs f2 pd))"
  "drawn (packAll env cs f2 pd) = drawn (font (packLoop env cs f2 pd))"
  "currentX (packAll env cs f2 pd) = cursorX (packLoop env cs f2 pd)"
  "currentY (packAll env cs f2 pd) = cursorY (packLoop env cs f2 pd)"
  by (simp_all add: packAll_def Let_def)

lemma packLoop_dom:
  "dom (chars (font (packLoop env cs f2 pd))) = set cs \<union> dom (chars f2)"
  by (simp add: packLoop_def foldl_packChar_dom)

text \<open>The current page stays a page of the font.\<close>

lemma placeOnShelf_page:
  "pages (font l) (currentPageIndex (font l)) = Some (pageData l) \<Longrightarrow>
   pages (font (placeOnShelf env mw mh l c)) (currentPageIndex (font (placeOnShelf env mw mh l c)))
     = Some (pageData (placeOnShelf env mw mh l c))"
  by (simp add: placeOnShelf_def Let_def nextPage_font)

lemma recordGlyph_page:
  "pages (font (recordGlyph env l c)) = pages (font l) \<and>
   currentPageIndex (font (recordGlyph env l c)) = currentPageIndex (font l) \<and>
   pageData (recordGlyph env l c) = pageData l"
  by (simp add: recordGlyph_def Let_def)

lemma packChar_page:
  "pages (font l) (currentPageIndex (font l)) = Some (pageData l) \<Longrightarrow>
   pages (font (packChar env mw mh l c)) (currentPageIndex (font (packChar env mw mh l c)))
     = Some (pageData (packChar env mw mh l c))"
  using placeOnShelf_page [of "l\<lparr>font := (font l)\<lparr>measured := measured (font l) @ [[c]]\<rparr>\<rparr>" env mw mh c]
  by (simp add: packChar_def Let_def recordGlyph_page)

lemma foldl_packChar_page:
  "pages (font l) (currentPageIndex (font l)) = Some (pageData l) \<Longrightarrow>
   pages (font (foldl (packChar env mw mh) l cs))
     (currentPageIndex (font (foldl (packChar env mw mh) l cs)))
     = Some (pageData (foldl (packChar env mw mh) l cs))"
  by (induction cs arbitrary: l) (simp_all add: packChar_page)

lemma packLoop_page:
  "pages f2 (currentPageIndex f2) = Some pd \<Longrightarrow>
   pages (font (packLoop env cs f2 pd)) (currentPageIndex (font (packLoop env cs f2 pd)))
     = Some (pageData (packLoop env cs f2 pd))"
  unfolding packLoop_def by (rule foldl_packChar_page) simp

lemma ensureCharacters_currentChars:
  assumes "ensureCharacters env str fnt = Inr f'"
  shows "currentChars f' = currentChars fnt @ charListOf env str fnt"
proof (cases "charListOf env str fnt = []")
  case True
  with assms show ?thesis by (simp add: ensureCharacters_empty)
next
  case False
  from ensureCharacters_Inr [OF assms False] obtain f2 pd where
    cp: "currentPage env (fnt\<lparr>currentChars := currentChars fnt @ charListOf env str fnt\<rparr>)
         = Inr (f2, pd)"
    and k: "kerningOnly (packAll env (charListOf env str fnt) f2 pd) f'"
    by blast
  from currentPage_packingOnly [OF cp]
  have "currentChars f2 = currentChars fnt @ charListOf env str fnt"
    by (simp add: packingOnly_fields)
  with k show ?thesis by (simp add: kerningOnly_fields packAll_kept)
qed

lemma ensureCharacters_total:
  assumes "wellFormed fnt"
  shows "\<exists>f'. ensureCharacters env str fnt = Inr f' \<and> wellFormed f'"
proof (cases "charListOf env str fnt = []")
  case True
  with assms show ?thesis by (simp add: ensureCharacters_empty)
next
  case False
  let ?cs = "charListOf env str fnt"
  let ?f1 = "fnt\<lparr>currentChars := currentChars fnt @ ?cs\<rparr>"
  from assms have "currentPageIndex ?f1 = - 1 \<or> currentPageIndex ?f1 \<in> dom (pages ?f1)"
    by (simp add: wellFormed_def)
  from currentPage_total [OF this] obtain f2 pd where cp: "currentPage env ?f1 = Inr (f2, pd)"
    by blast
  let ?p = "packAll env ?cs f2 pd"
  from currentPage_packingOnly [OF cp] have cc: "currentChars f2 = currentChars fnt @ ?cs"
    by (simp add: packingOnly_fields)
  have ch2: "dom (chars fnt) \<subseteq> dom (chars f2)"
  proof (cases "currentPageIndex ?f1 = - 1")
    case True
    with cp have "f2 = fst (nextPage env ?f1)" by (simp add: currentPage_def)
    then show ?thesis by (simp add: nextPage_font)
  next
    case False
    with cp have "f2 = ?f1" by (auto simp: currentPage_def split: option.splits)
    then show ?thesis by simp
  qed
  have domp: "dom (chars ?p) = set ?cs \<union> dom (chars f2)"
    by (simp add: packAll_parts packLoop_dom)
  from assms have "set (currentChars fnt) \<subseteq> dom (chars fnt)" by (simp add: wellFormed_def)
  with ch2 have "set (currentChars fnt) \<subseteq> dom (chars f2)" by blast
  with domp cc have sub: "set (currentChars ?p) \<subseteq> dom (chars ?p)"
    by (simp add: packAll_kept le_supI2)
  from domp have new: "set ?cs \<subseteq> dom (chars ?p)" by auto
  from packLoop_page [OF currentPage_page [OF cp]]
  have pg: "currentPageIndex ?p \<in> dom (pages ?p)"
    by (auto simp: packAll_parts)
  from sub pg have wp: "wellFormed ?p" by (simp add: wellFormed_def)
  show ?thesis
  proof (cases "skipKerning ?p")
    case True
    from applyKerning_total [OF new sub] obtain f' where f': "applyKerning env ?cs ?p = Inr f'"
      by blast
    then have k: "kerningOnly ?p f'" by (rule applyKerning_kerningOnly)
    from wp have "wellFormed f'"
      by (simp add: wellFormed_def kerningOnly_fields [OF k] kerningOnly_dom [OF k])
    with f' True ensureCharacters_packed [OF False cp] show ?thesis by simp
  next
    case False
    with wp ensureCharacters_packed [OF \<open>?cs \<noteq> []\<close> cp] show ?thesis by simp
  qed
qed

lemma ensureCharacters_kept:
  assumes r: "ensureCharacters env str fnt = Inr f'"
  shows "style f' = style fnt" "padding f' = padding fnt" "skipKerning f' = skipKerning fnt"
    "resolution f' = resolution fnt" "textureSize f' = textureSize fnt"
    "baseRenderedFontSize f' = baseRenderedFontSize fnt"
    "baseMeasurementFontSize f' = baseMeasurementFontSize fnt"
proof -
  have "style f' = style fnt \<and> padding f' = padding fnt \<and> skipKerning f' = skipKerning fnt \<and>
    resolution f' = resolution fnt \<and> textureSize f' = textureSize fnt \<and>
    baseRenderedFontSize f' = baseRenderedFontSize fnt \<and>
    baseMeasurementFontSize f' = baseMeasurementFontSize fnt"
  proof (cases "charListOf env str fnt = []")
    case True
    with r show ?thesis by (simp add: ensureCharacters_empty)
  next
    case False
    from ensureCharacters_Inr [OF r False] obtain f2 pd where
      cp: "currentPage env (fnt\<lparr>currentChars := currentChars fnt @ charListOf env str fnt\<rparr>)
           = Inr (f2, pd)"
      and k: "kerningOnly (packAll env (charListOf env str fnt) f2 pd) f'"
      by blast
    from currentPage_packingOnly [OF cp] kerningOnly_fields [OF k]
    show ?thesis by (simp add: packingOnly_fields packAll_kept)
  qed
  then show "style f' = style fnt" "padding f' = padding fnt" "skipKerning f' = skipKerning fnt"
    "resolution f' = resolution fnt" "textureSize f' = textureSize fnt"
    "baseRenderedFontSize f' = baseRenderedFontSize fnt"
    "baseMeasurementFontSize f' = baseMeasurementFontSize fnt"
    by simp_all
qed

lemma currentPage_chars: "currentPage env f = Inr (f2, pd) \<Longrightarrow> chars f2 = chars f"
  by (cases "currentPageIndex f = - 1")
     (auto simp: currentPage_def nextPage_def Let_def split: option.splits)

section \<open>The cursor, the page and the glyph record after one step\<close>

lemma nextPage_pageAt: "snd (nextPage env f) = pageAt env f (currentPageIndex f + 1)"
  by (simp add: nextPage_def pageAt_def Let_def)

lemma pageAt_packingOnly: "packingOnly f f' \<Longrightarrow> pageAt env f' i = pageAt env f i"
  by (simp add: pageAt_def packingOnly_fields)

lemma pageAt_fields:
  "pageIndex (pageAt env f i) = i"
  "canvasWidth (pageAt env f i) =
     fst (getOptimalCanvasAndContext env (textureSize f) (textureSize f) (resolution f))"
  "canvasHeight (pageAt env f i) =
     snd (getOptimalCanvasAndContext env (textureSize f) (textureSize f) (resolution f))"
  by (simp_all add: pageAt_def Let_def)

lemma placeOnShelf_cursorX:
  "cursorX (placeOnShelf env mw mh l c) = (if wraps env mw l c then 0 else cursorX l)"
  by (simp add: placeOnShelf_def wraps_def Let_def)

lemma placeOnShelf_cursorY:
  "cursorY (placeOnShelf env mw mh l c) =
     (if overflows env mw mh l c then 0
      else if wraps env mw l c then fadd (cursorY l) (shelfHeight env l c)
      else cursorY l)"
  by (simp add: placeOnShelf_def wraps_def overflows_def shelfHeight_def Let_def)

lemma placeOnShelf_maxCharHeight:
  "maxCharHeight (placeOnShelf env mw mh l c) =
     (if wraps env mw l c then paddedHeight env (font l) c else shelfHeight env l c)"
  by (simp add: placeOnShelf_def wraps_def shelfHeight_def Let_def)

lemma placeOnShelf_pageData:
  "pageData (placeOnShelf env mw mh l c) =
     (if overflows env mw mh l c then pageAt env (font l) (currentPageIndex (font l) + 1)
      else pageData l)"
  by (simp add: placeOnShelf_def wraps_def overflows_def shelfHeight_def Let_def
      nextPage_pageAt pageAt_def)

lemma placeOnShelf_currentPageIndex:
  "currentPageIndex (font (placeOnShelf env mw mh l c)) =
     (if overflows env mw mh l c then currentPageIndex (font l) + 1
      else currentPageIndex (font l))"
  by (simp add: placeOnShelf_def wraps_def overflows_def shelfHeight_def Let_def nextPage_font)

lemma placeOnShelf_pages:
  "pages (font (placeOnShelf env mw mh l c)) =
     (if overflows env mw mh l c
      then (pages (font l))(currentPageIndex (font l) + 1 \<mapsto>
              pageAt env (font l) (currentPageIndex (font l) + 1))
      else pages (font l))"
  by (simp add: placeOnShelf_def wraps_def overflows_def shelfHeight_def Let_def nextPage_font
      nextPage_pageAt pageAt_def)

lemma placeOnShelf_uploaded:
  "uploaded (font (placeOnShelf env mw mh l c)) =
     (if overflows env mw mh l c then uploaded (font l) @ [pageIndex (pageData l)]
      else uploaded (font l))"
  by (simp add: placeOnShelf_def wraps_def overflows_def shelfHeight_def Let_def nextPage_font)

lemma packChar_alt:
  "packChar env mw mh l c = recordGlyph env (placeOnShelf env mw mh (measuring l c) c) c"
  by (simp add: packChar_def measuring_def Let_def)

lemma measuring_fields:
  "cursorX (measuring l c) = cursorX l" "cursorY (measuring l c) = cursorY l"
  "maxCharHeight (measuring l c) = maxCharHeight l" "pageData (measuring l c) = pageData l"
  "currentPageIndex (font (measuring l c)) = currentPageIndex (font l)"
  "pages (font (measuring l c)) = pages (font l)"
  "chars (font (measuring l c)) = chars (font l)"
  "drawn (font (measuring l c)) = drawn (font l)"
  "uploaded (font (measuring l c)) = uploaded (font l)"
  "paddedWidth env (font (measuring l c)) c' = paddedWidth env (font l) c'"
  "paddedHeight env (font (measuring l c)) c' = paddedHeight env (font l) c'"
  "pageAt env (font (measuring l c)) i = pageAt env (font l) i"
  "scaledPadding (font (measuring l c)) = scaledPadding (font l)"
  "fontScale (font (measuring l c)) = fontScale (font l)"
  by (simp_all add: measuring_def paddedWidth_def paddedHeight_def pageAt_def scaledPadding_def
      fontScale_def)

lemma measuring_tests:
  "wraps env mw (measuring l c) c' = wraps env mw l c'"
  "overflows env mw mh (measuring l c) c' = overflows env mw mh l c'"
  "shelfHeight env (measuring l c) c' = shelfHeight env l c'"
  by (simp_all add: wraps_def overflows_def shelfHeight_def measuring_fields)

lemma recordGlyph_cursor:
  "cursorX (recordGlyph env l c) =
     (if isWhitespace c then cursorX l else fadd (cursorX l) (ceil (paddedWidth env (font l) c)))"
  "cursorY (recordGlyph env l c) = cursorY l"
  "maxCharHeight (recordGlyph env l c) = maxCharHeight l"
  "pageData (recordGlyph env l c) = pageData l"
  "currentPageIndex (font (recordGlyph env l c)) = currentPageIndex (font l)"
  "pages (font (recordGlyph env l c)) = pages (font l)"
  "uploaded (font (recordGlyph env l c)) = uploaded (font l)"
  by (simp_all add: recordGlyph_def Let_def)

lemma placeOnShelf_derived:
  "paddedWidth env (font (placeOnShelf env mw mh l c)) c' = paddedWidth env (font l) c'"
  "paddedHeight env (font (placeOnShelf env mw mh l c)) c' = paddedHeight env (font l) c'"
  "fontScale (font (placeOnShelf env mw mh l c)) = fontScale (font l)"
  "scaledPadding (font (placeOnShelf env mw mh l c)) = scaledPadding (font l)"
  "pageAt env (font (placeOnShelf env mw mh l c)) i = pageAt env (font l) i"
  using placeOnShelf_packingOnly [of l env mw mh c]
  by (simp_all add: packingOnly_derived pageAt_packingOnly)

lemma packChar_derived:
  "paddedWidth env (font (packChar env mw mh l c)) c' = paddedWidth env (font l) c'"
  "paddedHeight env (font (packChar env mw mh l c)) c' = paddedHeight env (font l) c'"
  "fontScale (font (packChar env mw mh l c)) = fontScale (font l)"
  "scaledPadding (font (packChar env mw mh l c)) = scaledPadding (font l)"
  "pageAt env (font (packChar env mw mh l c)) i = pageAt env (font l) i"
  using packChar_packingOnly [of l env mw mh c]
  by (simp_all add: packingOnly_derived pageAt_packingOnly)

lemma packChar_cursorX:
  "cursorX (packChar env mw mh l c) =
     (if isWhitespace c then (if wraps env mw l c then 0 else cursorX l)
      else fadd (if wraps env mw l c then 0 else cursorX l) (ceil (paddedWidth env (font l) c)))"
  by (simp add: packChar_alt recordGlyph_cursor placeOnShelf_cursorX placeOnShelf_derived
      measuring_fields measuring_tests)

lemma packChar_cursorY:
  "cursorY (packChar env mw mh l c) =
     (if overflows env mw mh l c then 0
      else if wraps env mw l c then fadd (cursorY l) (shelfHeight env l c)
      else cursorY l)"
  by (simp add: packChar_alt recordGlyph_cursor placeOnShelf_cursorY measuring_fields
      measuring_tests)

lemma packChar_maxCharHeight:
  "maxCharHeight (packChar env mw mh l c) =
     (if wraps env mw l c then paddedHeight env (font l) c else shelfHeight env l c)"
  by (simp add: packChar_alt recordGlyph_cursor placeOnShelf_maxCharHeight measuring_fields
      measuring_tests)

lemma packChar_pageData:
  "pageData (packChar env mw mh l c) =
     (if overflows env mw mh l c then pageAt env (font l) (currentPageIndex (font l) + 1)
      else pageData l)"
  by (simp add: packChar_alt recordGlyph_cursor placeOnShelf_pageData measuring_fields
      measuring_tests)

lemma packChar_currentPageIndex:
  "currentPageIndex (font (packChar env mw mh l c)) =
     (if overflows env mw mh l c then currentPageIndex (font l) + 1
      else currentPageIndex (font l))"
  by (simp add: packChar_alt recordGlyph_cursor placeOnShelf_currentPageIndex measuring_fields
      measuring_tests)

lemma packChar_pages:
  "pages (font (packChar env mw mh l c)) =
     (if overflows env mw mh l c
      then (pages (font l))(currentPageIndex (font l) + 1 \<mapsto>
              pageAt env (font l) (currentPageIndex (font l) + 1))
      else pages (font l))"
  by (simp add: packChar_alt recordGlyph_cursor placeOnShelf_pages measuring_fields
      measuring_tests)

lemma packChar_glyph:
  "chars (font (packChar env mw mh l c)) c =
     Some \<lparr>id_code = c, xOffset = - padding (font l), yOffset = - padding (font l),
           xAdvance = fsub (fsub (measureTextWidth env [c])
                        (case dropShadow (style (font l)) of None \<Rightarrow> 0 | Some d \<Rightarrow> d))
                        (case stroke (style (font l)) of None \<Rightarrow> 0 | Some w \<Rightarrow> w),
           kerning = Map.empty,
           texture =
             (if isWhitespace c then None
              else Some \<lparr>source = pageIndex (pageData (packChar env mw mh l c)),
                         frame = glyphFrame (font l) (pageData (packChar env mw mh l c))
                           (if wraps env mw l c then 0 else cursorX l)
                           (cursorY (packChar env mw mh l c))
                           (paddedWidth env (font l) c) (paddedHeight env (font l) c)\<rparr>)\<rparr>"
proof -
  let ?p = "placeOnShelf env mw mh (measuring l c) c"
  have po: "packingOnly (font l) (font ?p)"
    using placeOnShelf_packingOnly [of "measuring l c" env mw mh c]
      packingOnly_trans [of "font l" "font (measuring l c)"]
    by (simp add: measuring_def packingOnly_def)
  have gf: "glyphFrame (font ?p) pd a b w h = glyphFrame (font l) pd a b w h" for pd a b w h
    using packingOnly_derived [OF po] by (simp add: glyphFrame_def)
  show ?thesis
    unfolding packChar_alt
    by (simp add: recordGlyph_def Let_def gf packingOnly_fields [OF po]
        placeOnShelf_derived measuring_fields placeOnShelf_cursorX placeOnShelf_cursorY
        placeOnShelf_pageData measuring_tests)
qed

lemma packChar_drawn:
  "drawn (font (packChar env mw mh l c)) =
     drawn (font l) @
       (if isWhitespace c then []
        else [\<lparr>draw_page = pageIndex (pageData (packChar env mw mh l c)), draw_char = c,
               draw_x = fadd (if wraps env mw l c then 0 else cursorX l) (scaledPadding (font l)),
               draw_y = fadd (cursorY (packChar env mw mh l c)) (scaledPadding (font l))\<rparr>])"
  unfolding packChar_alt
  by (simp add: recordGlyph_def Let_def placeOnShelf_drawn placeOnShelf_derived
      placeOnShelf_cursorX placeOnShelf_cursorY placeOnShelf_pageData measuring_fields
      measuring_tests)

lemma packChar_measured:
  "measured (font (packChar env mw mh l c)) = measured (font l) @ [[c]]"
  unfolding packChar_alt
  by (simp add: recordGlyph_def Let_def placeOnShelf_def nextPage_font measuring_def)

lemma foldl_packChar_other:
  "c \<notin> set cs \<Longrightarrow> chars (font (foldl (packChar env mw mh) l cs)) c = chars (font l) c"
  by (induction cs arbitrary: l) (auto simp: packChar_other)

lemma foldl_packChar_glyph:
  assumes "c \<in> set cs"
  shows "\<exists>g. chars (font (foldl (packChar env mw mh) l cs)) c = Some g \<and>
             id_code g = c \<and>
             xOffset g = - padding (font l) \<and> yOffset g = - padding (font l) \<and>
             xAdvance g = fsub (fsub (measureTextWidth env [c])
                        (case dropShadow (style (font l)) of None \<Rightarrow> 0 | Some d \<Rightarrow> d))
                        (case stroke (style (font l)) of None \<Rightarrow> 0 | Some w \<Rightarrow> w) \<and>
             kerning g = Map.empty \<and>
             (texture g = None \<longleftrightarrow> isWhitespace c)"
  using assms
proof (induction cs arbitrary: l)
  case Nil
  then show ?case by simp
next
  case (Cons a cs)
  let ?l = "packChar env mw mh l a"
  have keep: "style (font ?l) = style (font l)" "padding (font ?l) = padding (font l)"
    using packingOnly_fields [OF packChar_packingOnly [of l env mw mh a]] by simp_all
  show ?case
  proof (cases "c \<in> set cs")
    case True
    from Cons.IH [OF True, of ?l] show ?thesis by (simp add: keep)
  next
    case False
    with Cons.prems have ca: "c = a" by simp
    from False have "chars (font (foldl (packChar env mw mh) ?l cs)) c = chars (font ?l) c"
      by (rule foldl_packChar_other)
    then show ?thesis
      unfolding ca by (simp add: packChar_glyph)
  qed
qed

text \<open>What a successful call leaves for a character of the new batch, and for any other.\<close>

lemma ensureCharacters_new_glyph:
  assumes r: "ensureCharacters env str fnt = Inr f'"
    and c: "c \<in> set (charListOf env str fnt)"
  shows "\<exists>g. chars f' c = Some g \<and> id_code g = c \<and>
             xOffset g = - padding fnt \<and> yOffset g = - padding fnt \<and>
             xAdvance g = fsub (fsub (measureTextWidth env [c])
                        (case dropShadow (style fnt) of None \<Rightarrow> 0 | Some d \<Rightarrow> d))
                        (case stroke (style fnt) of None \<Rightarrow> 0 | Some w \<Rightarrow> w) \<and>
             (texture g = None \<longleftrightarrow> isWhitespace c) \<and>
             (\<not> skipKerning fnt \<longrightarrow> kerning g = Map.empty)"
proof -
  let ?cs = "charListOf env str fnt"
  from c have ne: "?cs \<noteq> []" by auto
  from ensureCharacters_Inr [OF r ne] obtain f2 pd where
    cp: "currentPage env (fnt\<lparr>currentChars := currentChars fnt @ ?cs\<rparr>) = Inr (f2, pd)"
    and k: "kerningOnly (packAll env ?cs f2 pd) f'"
    and s: "skipKerning f2 \<or> f' = packAll env ?cs f2 pd"
    by blast
  from currentPage_packingOnly [OF cp]
  have keep: "style f2 = style fnt" "padding f2 = padding fnt" "skipKerning f2 = skipKerning fnt"
    by (simp_all add: packingOnly_fields)
  from foldl_packChar_glyph [OF c, of env "fdiv (canvasWidth pd) (resolution f2)"
      "fdiv (canvasHeight pd) (resolution f2)"
      "\<lparr>font = f2, pageData = pd, cursorX = currentX f2, cursorY = currentY f2,
        maxCharHeight = 0\<rparr>"]
  obtain g where g: "chars (packAll env ?cs f2 pd) c = Some g" "id_code g = c"
    "xOffset g = - padding fnt" "yOffset g = - padding fnt"
    "xAdvance g = fsub (fsub (measureTextWidth env [c])
                        (case dropShadow (style fnt) of None \<Rightarrow> 0 | Some d \<Rightarrow> d))
                        (case stroke (style fnt) of None \<Rightarrow> 0 | Some w \<Rightarrow> w)"
    "kerning g = Map.empty" "texture g = None \<longleftrightarrow> isWhitespace c"
    by (auto simp: packAll_parts packLoop_def keep)
  from kerningOnly_glyph [OF k g(1)] obtain kn where kn: "chars f' c = Some (g\<lparr>kerning := kn\<rparr>)"
    by blast
  have "\<not> skipKerning fnt \<longrightarrow> kerning (g\<lparr>kerning := kn\<rparr>) = Map.empty"
  proof
    assume "\<not> skipKerning fnt"
    with s keep have "f' = packAll env ?cs f2 pd" by simp
    with g(1) kn have "g\<lparr>kerning := kn\<rparr> = g" by simp
    with g(6) show "kerning (g\<lparr>kerning := kn\<rparr>) = Map.empty" by simp
  qed
  with kn g show ?thesis by simp
qed

lemma glyphFrame_packingOnly:
  "packingOnly f f' \<Longrightarrow> glyphFrame f' pd a b w h = glyphFrame f pd a b w h"
  by (simp add: glyphFrame_def packingOnly_derived)

lemma packAll_derived:
  "paddedWidth env (packAll env' cs f pd) c = paddedWidth env f c"
  "paddedHeight env (packAll env' cs f pd) c = paddedHeight env f c"
  by (simp_all add: paddedWidth_def paddedHeight_def fontScale_def scaledPadding_def packAll_kept)

lemma currentChars_derived:
  "paddedWidth env (f\<lparr>currentChars := cc\<rparr>) c = paddedWidth env f c"
  "paddedHeight env (f\<lparr>currentChars := cc\<rparr>) c = paddedHeight env f c"
  by (simp_all add: paddedWidth_def paddedHeight_def fontScale_def scaledPadding_def)

section \<open>The first call on a font\<close>

lemma currentPage_fresh:
  "currentPageIndex f = - 1 \<Longrightarrow> currentPage env f = Inr (fst (nextPage env f), pageAt env f 0)"
  using nextPage_pageAt [of env f] by (simp add: currentPage_def prod_eq_iff)

lemma ensureCharacters_first:
  assumes "currentPageIndex fnt = - 1" "charListOf env str fnt = cs" "cs \<noteq> []"
  shows "ensureCharacters env str fnt =
     (if skipKerning fnt
      then applyKerning env cs
             (packAll env cs (fst (nextPage env (fnt\<lparr>currentChars := currentChars fnt @ cs\<rparr>)))
                (pageAt env fnt 0))
      else Inr (packAll env cs (fst (nextPage env (fnt\<lparr>currentChars := currentChars fnt @ cs\<rparr>)))
                (pageAt env fnt 0)))"
proof -
  let ?f1 = "fnt\<lparr>currentChars := currentChars fnt @ cs\<rparr>"
  have p: "pageAt env ?f1 0 = pageAt env fnt 0" by (simp add: pageAt_def)
  from assms(1) have "currentPage env ?f1 = Inr (fst (nextPage env ?f1), pageAt env fnt 0)"
    using currentPage_fresh [of ?f1 env] by (simp add: p)
  with assms(2,3) ensureCharacters_packed [of env str fnt "fst (nextPage env ?f1)" "pageAt env fnt 0"]
  show ?thesis by (simp add: packAll_kept nextPage_font)
qed

lemma started_derived:
  "paddedWidth env (fst (nextPage env (f\<lparr>currentChars := cc\<rparr>))) c = paddedWidth env f c"
  "paddedHeight env (fst (nextPage env (f\<lparr>currentChars := cc\<rparr>))) c = paddedHeight env f c"
  "fontScale (fst (nextPage env (f\<lparr>currentChars := cc\<rparr>))) = fontScale f"
  "scaledPadding (fst (nextPage env (f\<lparr>currentChars := cc\<rparr>))) = scaledPadding f"
  "pageAt env (fst (nextPage env (f\<lparr>currentChars := cc\<rparr>))) i = pageAt env f i"
  "resolution (fst (nextPage env (f\<lparr>currentChars := cc\<rparr>))) = resolution f"
  "currentX (fst (nextPage env (f\<lparr>currentChars := cc\<rparr>))) = currentX f"
  "currentY (fst (nextPage env (f\<lparr>currentChars := cc\<rparr>))) = currentY f"
  "currentPageIndex (fst (nextPage env (f\<lparr>currentChars := cc\<rparr>))) = currentPageIndex f + 1"
  "style (fst (nextPage env (f\<lparr>currentChars := cc\<rparr>))) = style f"
  "padding (fst (nextPage env (f\<lparr>currentChars := cc\<rparr>))) = padding f"
  by (simp_all add: nextPage_font paddedWidth_def paddedHeight_def fontScale_def
      scaledPadding_def pageAt_def)

lemma started_fields:
  "currentChars (fst (nextPage env (f\<lparr>currentChars := cc\<rparr>))) = cc"
  "pages (fst (nextPage env (f\<lparr>currentChars := cc\<rparr>))) =
     (pages f)(currentPageIndex f + 1 \<mapsto> pageAt env f (currentPageIndex f + 1))"
  "chars (fst (nextPage env (f\<lparr>currentChars := cc\<rparr>))) = chars f"
  "measureCache (fst (nextPage env (f\<lparr>currentChars := cc\<rparr>))) = measureCache f"
  "measured (fst (nextPage env (f\<lparr>currentChars := cc\<rparr>))) = measured f"
  by (simp_all add: nextPage_font nextPage_pageAt pageAt_def)

text \<open>The font after the packing of a first batch, as far as the kerning pass reads it.\<close>

lemma packed_first:
  assumes "currentPageIndex fnt = - 1" "currentChars fnt = []" "c \<in> set cs"
    and "p = packAll env cs (fst (nextPage env (fnt\<lparr>currentChars := currentChars fnt @ cs\<rparr>)))
                (pageAt env fnt 0)"
  shows "currentChars p = cs" "measureCache p = measureCache fnt"
    "\<exists>g. chars p c = Some g \<and> kerning g = Map.empty"
proof -
  show "currentChars p = cs" "measureCache p = measureCache fnt"
    by (simp_all add: assms(4) packAll_kept nextPage_font assms(2))
  from foldl_packChar_glyph [OF assms(3)]
  show "\<exists>g. chars p c = Some g \<and> kerning g = Map.empty"
    unfolding assms(4) packAll_parts packLoop_def by blast
qed

lemma packed_first_measured:
  "measured (packAll env [c] (fst (nextPage env f)) pd) = measured f @ [[c]]"
  by (simp add: packAll_def packLoop_def Let_def packChar_measured nextPage_font)

lemma style_new:
  "style (newDynamicBitmapFont bm br options) =
     \<lparr>fontSize = (if opt_overrideSize options then bm else fontSize (opt_style options)),
      italic = italic (opt_style options),
      stroke = (case stroke (opt_style options) of None \<Rightarrow> None
                | Some w \<Rightarrow> Some (if opt_overrideSize options
                                  then fmul w (fdiv br (fontSize (opt_style options))) else w)),
      dropShadow = dropShadow (opt_style options)\<rparr>"
  by (cases "opt_style options") (simp add: newDynamicBitmapFont_def Let_def split: option.splits)

section \<open>Shelves of glyphs of one size\<close>

lemma ceil_max: "m \<le> ceil v \<Longrightarrow> ceil (max v m) = ceil v"
proof -
  assume m: "m \<le> ceil v"
  show ?thesis
  proof (cases "m \<le> v")
    case True
    then show ?thesis by (simp add: max_def)
  next
    case False
    then have vm: "v < m" by simp
    from m have "\<lceil>m\<rceil> \<le> \<lceil>v\<rceil>" by (simp add: ceil_def ceiling_le)
    moreover from vm have "\<lceil>v\<rceil> \<le> \<lceil>m\<rceil>" by (simp add: ceiling_mono)
    ultimately have "\<lceil>m\<rceil> = \<lceil>v\<rceil>" by simp
    with vm show ?thesis by (simp add: max_def ceil_def)
  qed
qed

lemma ceil_ge: "v \<le> ceil v"
  by (simp add: ceil_def)

text \<open>Whole numbers below \<open>2 ^ 53\<close> add without rounding.\<close>

lemma grid_advance:
  assumes "0 \<le> ceil v" "real (Suc k) * ceil v \<le> 2 ^ 53"
  shows "fadd (real k * ceil v) (ceil v) = real (Suc k) * ceil v"
proof -
  have e: "real k * ceil v + ceil v = of_int (int (Suc k) * \<lceil>v\<rceil>)"
    by (simp add: ceil_def algebra_simps)
  from assms have "(of_int (int (Suc k) * \<lceil>v\<rceil>) :: real) \<le> 2 ^ 53" "0 \<le> \<lceil>v\<rceil>"
    by (simp_all add: ceil_def)
  then have "\<bar>int (Suc k) * \<lceil>v\<rceil>\<bar> \<le> 2 ^ 53"
    by (metis abs_of_nonneg mult_nonneg_nonneg of_int_le_numeral_power_cancel_iff of_nat_0_le_iff)
  from fl_of_int [OF this] show ?thesis unfolding fadd_def e by (simp add: ceil_def algebra_simps)
qed

lemma grid_first:
  assumes "0 \<le> ceil v" "real (Suc k) * ceil v \<le> 2 ^ 53"
  shows "fadd 0 (ceil v) = ceil v"
proof -
  have "real (Suc 0) * ceil v \<le> real (Suc k) * ceil v"
    using assms(1) by (intro mult_right_mono) simp_all
  with assms(2) have "real (Suc 0) * ceil v \<le> 2 ^ 53" by linarith
  from grid_advance [OF assms(1) this] show ?thesis by simp
qed

lemma fadd_mono: "a \<le> b \<Longrightarrow> fadd a c \<le> fadd b c"
  unfolding fadd_def by (rule fl_mono) simp


text \<open>A test that passes after \<open>n\<close> steps and fails after \<open>n + 1\<close>: the step is positive.\<close>

lemma step_positive:
  assumes "fadd (real n * d) v \<le> m" "m < fadd (real (Suc n) * d) v"
  shows "0 < d"
proof (rule ccontr)
  assume "\<not> 0 < d"
  then have "real (Suc n) * d \<le> real n * d" by (simp add: algebra_simps)
  from fadd_mono [OF this, of v] assms show False by linarith
qed

lemma fadd_0_scaledPadding: "fadd 0 (scaledPadding f) = scaledPadding f"
  by (simp add: fadd_def scaledPadding_def fmul_def)

lemma glyphFrame_origin:
  "rect_x (glyphFrame f pd 0 0 w h) = 0" "rect_y (glyphFrame f pd 0 0 w h) = 0"
  by (simp_all add: glyphFrame_def Let_def fmul_def fdiv_def)

lemma onGrid_step_same_shelf:
  assumes g: "onGrid env fnt pw ph l row col"
    and v: "\<not> isWhitespace c" "paddedWidth env fnt c = pw" "paddedHeight env fnt c = ph"
    and fit: "fadd (real col * ceil pw) pw \<le> mw"
    and ex: "0 \<le> ceil pw" "real (Suc col) * ceil pw \<le> 2 ^ 53"
  shows "onGrid env fnt pw ph (packChar env mw mh l c) row (Suc col)"
    and "chars (font (packChar env mw mh l c)) c =
      Some \<lparr>id_code = c, xOffset = - padding (font l), yOffset = - padding (font l),
           xAdvance = fsub (fsub (measureTextWidth env [c])
                        (case dropShadow (style (font l)) of None \<Rightarrow> 0 | Some d \<Rightarrow> d))
                        (case stroke (style (font l)) of None \<Rightarrow> 0 | Some w \<Rightarrow> w),
           kerning = Map.empty,
           texture = Some \<lparr>source = 0,
               frame = glyphFrame fnt (pageAt env fnt 0) (real col * ceil pw) (real row * ceil ph) pw ph\<rparr>\<rparr>"
proof -
  from g have f: "cursorX l = real col * ceil pw" "cursorY l = real row * ceil ph"
    "maxCharHeight l \<le> ceil ph" "pageData l = pageAt env fnt 0"
    "currentPageIndex (font l) = 0" "pages (font l) = [0 \<mapsto> pageAt env fnt 0]"
    and d: "\<And>c. paddedWidth env (font l) c = paddedWidth env fnt c"
    "\<And>c. paddedHeight env (font l) c = paddedHeight env fnt c"
    "\<And>i. pageAt env (font l) i = pageAt env fnt i"
    "\<And>pd a b w h. glyphFrame (font l) pd a b w h = glyphFrame fnt pd a b w h"
    unfolding onGrid_def by blast+
  from fit have nw: "\<not> wraps env mw l c" by (simp add: wraps_def f d v)
  then have no: "\<not> overflows env mw mh l c" by (simp add: overflows_def)
  have sh: "shelfHeight env l c = ceil ph"
    using v f(3) by (simp add: shelfHeight_def d ceil_max)
  show "onGrid env fnt pw ph (packChar env mw mh l c) row (Suc col)"
    unfolding onGrid_def
    by (simp add: packChar_cursorX packChar_cursorY packChar_maxCharHeight packChar_pageData
        packChar_currentPageIndex packChar_pages packChar_derived nw no sh v f d
        glyphFrame_packingOnly [OF packChar_packingOnly] grid_advance [OF ex])
  show "chars (font (packChar env mw mh l c)) c =
      Some \<lparr>id_code = c, xOffset = - padding (font l), yOffset = - padding (font l),
           xAdvance = fsub (fsub (measureTextWidth env [c])
                        (case dropShadow (style (font l)) of None \<Rightarrow> 0 | Some d \<Rightarrow> d))
                        (case stroke (style (font l)) of None \<Rightarrow> 0 | Some w \<Rightarrow> w),
           kerning = Map.empty,
           texture = Some \<lparr>source = 0,
               frame = glyphFrame fnt (pageAt env fnt 0) (real col * ceil pw) (real row * ceil ph) pw ph\<rparr>\<rparr>"
    by (simp add: packChar_glyph packChar_cursorY packChar_pageData nw no v f d pageAt_fields)
qed

lemma onGrid_step_new_shelf:
  assumes g: "onGrid env fnt pw ph l row col"
    and v: "\<not> isWhitespace c" "paddedWidth env fnt c = pw" "paddedHeight env fnt c = ph"
    and full: "mw < fadd (real col * ceil pw) pw"
    and fit: "fadd (real (Suc row) * ceil ph) ph \<le> mh"
    and ex: "0 \<le> ceil pw" "real (Suc k) * ceil pw \<le> 2 ^ 53"
      "0 \<le> ceil ph" "real (Suc row) * ceil ph \<le> 2 ^ 53"
  shows "onGrid env fnt pw ph (packChar env mw mh l c) (Suc row) 1"
    and "chars (font (packChar env mw mh l c)) c =
      Some \<lparr>id_code = c, xOffset = - padding (font l), yOffset = - padding (font l),
           xAdvance = fsub (fsub (measureTextWidth env [c])
                        (case dropShadow (style (font l)) of None \<Rightarrow> 0 | Some d \<Rightarrow> d))
                        (case stroke (style (font l)) of None \<Rightarrow> 0 | Some w \<Rightarrow> w),
           kerning = Map.empty,
           texture = Some \<lparr>source = 0,
               frame = glyphFrame fnt (pageAt env fnt 0) 0 (real (Suc row) * ceil ph) pw ph\<rparr>\<rparr>"
proof -
  from g have f: "cursorX l = real col * ceil pw" "cursorY l = real row * ceil ph"
    "maxCharHeight l \<le> ceil ph" "pageData l = pageAt env fnt 0"
    "currentPageIndex (font l) = 0" "pages (font l) = [0 \<mapsto> pageAt env fnt 0]"
    and d: "\<And>c. paddedWidth env (font l) c = paddedWidth env fnt c"
    "\<And>c. paddedHeight env (font l) c = paddedHeight env fnt c"
    "\<And>i. pageAt env (font l) i = pageAt env fnt i"
    "\<And>pd a b w h. glyphFrame (font l) pd a b w h = glyphFrame fnt pd a b w h"
    unfolding onGrid_def by blast+
  from full have w: "wraps env mw l c" by (simp add: wraps_def f d v)
  have sh: "shelfHeight env l c = ceil ph"
    using v f(3) by (simp add: shelfHeight_def d ceil_max)
  note adv = grid_advance [OF ex(3,4)]
  from fit have no: "\<not> overflows env mw mh l c"
    by (simp add: overflows_def sh f d v adv)
  show "onGrid env fnt pw ph (packChar env mw mh l c) (Suc row) 1"
    unfolding onGrid_def
    by (simp add: packChar_cursorX packChar_cursorY packChar_maxCharHeight packChar_pageData
        packChar_currentPageIndex packChar_pages packChar_derived w no sh v f d ceil_ge
        glyphFrame_packingOnly [OF packChar_packingOnly] adv grid_first [OF ex(1,2)])
  show "chars (font (packChar env mw mh l c)) c =
      Some \<lparr>id_code = c, xOffset = - padding (font l), yOffset = - padding (font l),
           xAdvance = fsub (fsub (measureTextWidth env [c])
                        (case dropShadow (style (font l)) of None \<Rightarrow> 0 | Some d \<Rightarrow> d))
                        (case stroke (style (font l)) of None \<Rightarrow> 0 | Some w \<Rightarrow> w),
           kerning = Map.empty,
           texture = Some \<lparr>source = 0,
               frame = glyphFrame fnt (pageAt env fnt 0) 0 (real (Suc row) * ceil ph) pw ph\<rparr>\<rparr>"
    by (simp add: packChar_glyph packChar_cursorY packChar_pageData w no sh v f d pageAt_fields
        adv)
qed

lemma onGrid_step_new_page:
  assumes g: "onGrid env fnt pw ph l row col"
    and v: "\<not> isWhitespace c" "paddedWidth env fnt c = pw" "paddedHeight env fnt c = ph"
    and full: "mw < fadd (real col * ceil pw) pw"
    and over: "mh < fadd (real (Suc row) * ceil ph) ph"
    and ex: "0 \<le> ceil ph" "real (Suc row) * ceil ph \<le> 2 ^ 53"
  shows "pages (font (packChar env mw mh l c)) = [0 \<mapsto> pageAt env fnt 0, 1 \<mapsto> pageAt env fnt 1]"
    and "currentPageIndex (font (packChar env mw mh l c)) = 1"
    and "pageData (packChar env mw mh l c) = pageAt env fnt 1"
    and "cursorY (packChar env mw mh l c) = 0"
    and "chars (font (packChar env mw mh l c)) c =
      Some \<lparr>id_code = c, xOffset = - padding (font l), yOffset = - padding (font l),
           xAdvance = fsub (fsub (measureTextWidth env [c])
                        (case dropShadow (style (font l)) of None \<Rightarrow> 0 | Some d \<Rightarrow> d))
                        (case stroke (style (font l)) of None \<Rightarrow> 0 | Some w \<Rightarrow> w),
           kerning = Map.empty,
           texture = Some \<lparr>source = 1, frame = glyphFrame fnt (pageAt env fnt 1) 0 0 pw ph\<rparr>\<rparr>"
proof -
  from g have f: "cursorX l = real col * ceil pw" "cursorY l = real row * ceil ph"
    "maxCharHeight l \<le> ceil ph" "pageData l = pageAt env fnt 0"
    "currentPageIndex (font l) = 0" "pages (font l) = [0 \<mapsto> pageAt env fnt 0]"
    and d: "\<And>c. paddedWidth env (font l) c = paddedWidth env fnt c"
    "\<And>c. paddedHeight env (font l) c = paddedHeight env fnt c"
    "\<And>i. pageAt env (font l) i = pageAt env fnt i"
    "\<And>pd a b w h. glyphFrame (font l) pd a b w h = glyphFrame fnt pd a b w h"
    unfolding onGrid_def by blast+
  from full have w: "wraps env mw l c" by (simp add: wraps_def f d v)
  have sh: "shelfHeight env l c = ceil ph"
    using v f(3) by (simp add: shelfHeight_def d ceil_max)
  from over have ov: "overflows env mw mh l c"
    by (simp add: overflows_def w sh f d v grid_advance [OF ex])
  show "pages (font (packChar env mw mh l c)) = [0 \<mapsto> pageAt env fnt 0, 1 \<mapsto> pageAt env fnt 1]"
    by (simp add: packChar_pages ov f d)
  show "currentPageIndex (font (packChar env mw mh l c)) = 1"
    by (simp add: packChar_currentPageIndex ov f)
  show "pageData (packChar env mw mh l c) = pageAt env fnt 1"
    by (simp add: packChar_pageData ov f d)
  show "cursorY (packChar env mw mh l c) = 0"
    by (simp add: packChar_cursorY ov)
  show "chars (font (packChar env mw mh l c)) c =
      Some \<lparr>id_code = c, xOffset = - padding (font l), yOffset = - padding (font l),
           xAdvance = fsub (fsub (measureTextWidth env [c])
                        (case dropShadow (style (font l)) of None \<Rightarrow> 0 | Some d \<Rightarrow> d))
                        (case stroke (style (font l)) of None \<Rightarrow> 0 | Some w \<Rightarrow> w),
           kerning = Map.empty,
           texture = Some \<lparr>source = 1, frame = glyphFrame fnt (pageAt env fnt 1) 0 0 pw ph\<rparr>\<rparr>"
    by (simp add: packChar_glyph packChar_cursorY packChar_pageData w ov v f d pageAt_fields)
qed

lemma onGrid_fold:
  fixes n m :: nat
  assumes fitW: "fadd (real n * ceil pw) pw \<le> mw" "mw < fadd (real (Suc n) * ceil pw) pw"
    and fitH: "fadd (real m * ceil ph) ph \<le> mh" "0 \<le> ceil ph"
    and ex: "real (Suc n) * ceil pw \<le> 2 ^ 53" "real (Suc m) * ceil ph \<le> 2 ^ 53"
  shows "onGrid env fnt pw ph l row col \<Longrightarrow> col \<le> Suc n \<Longrightarrow> row \<le> m \<Longrightarrow> distinct cs \<Longrightarrow>
     (\<forall>c\<in>set cs. \<not> isWhitespace c \<and> paddedWidth env fnt c = pw \<and> paddedHeight env fnt c = ph) \<Longrightarrow>
     row * Suc n + col + length cs \<le> Suc m * Suc n \<Longrightarrow>
     \<exists>row' col'. onGrid env fnt pw ph (foldl (packChar env mw mh) l cs) row' col' \<and>
        col' \<le> Suc n \<and> row' \<le> m \<and>
        row' * Suc n + col' = row * Suc n + col + length cs \<and>
        (\<forall>c\<in>set cs. \<exists>g t. chars (font (foldl (packChar env mw mh) l cs)) c = Some g \<and>
             texture g = Some t \<and> source t = 0)"
proof (induction cs arbitrary: l row col)
  case Nil
  then show ?case by auto
next
  case (Cons a cs)
  from fitW have cw: "0 < ceil pw" by (rule step_positive)
  then have cw0: "0 \<le> ceil pw" by simp
  from Cons.prems(5) have v: "\<not> isWhitespace a" "paddedWidth env fnt a = pw"
    "paddedHeight env fnt a = ph" by simp_all
  from Cons.prems(5) have rest: "\<forall>c\<in>set cs. \<not> isWhitespace c \<and> paddedWidth env fnt c = pw \<and>
      paddedHeight env fnt c = ph" by simp
  from Cons.prems(4) have dis: "distinct cs" and an: "a \<notin> set cs" by simp_all
  let ?l = "packChar env mw mh l a"
  have keep: "chars (font (foldl (packChar env mw mh) ?l cs)) a = chars (font ?l) a"
    using an by (rule foldl_packChar_other)
  show ?case
  proof (cases "col \<le> n")
    case True
    then have "real col * ceil pw \<le> real n * ceil pw"
      using cw by (simp add: mult_right_mono)
    from fadd_mono [OF this, of pw] fitW(1) have fit: "fadd (real col * ceil pw) pw \<le> mw" by simp
    from True have "real (Suc col) * ceil pw \<le> real (Suc n) * ceil pw"
      using cw0 by (intro mult_right_mono) simp_all
    with ex(1) have e: "real (Suc col) * ceil pw \<le> 2 ^ 53" by linarith
    note st = onGrid_step_same_shelf [OF Cons.prems(1) v fit cw0 e, of mh]
    from True have c1: "Suc col \<le> Suc n" by simp
    from Cons.prems(6) have c2: "row * Suc n + Suc col + length cs \<le> Suc m * Suc n" by simp
    from Cons.IH [OF st(1) c1 Cons.prems(3) dis rest c2]
    obtain row' col' where r: "onGrid env fnt pw ph (foldl (packChar env mw mh) ?l cs) row' col'"
      "col' \<le> Suc n" "row' \<le> m" "row' * Suc n + col' = row * Suc n + Suc col + length cs"
      "\<forall>c\<in>set cs. \<exists>g t. chars (font (foldl (packChar env mw mh) ?l cs)) c = Some g \<and>
             texture g = Some t \<and> source t = 0"
      by blast
    have "\<exists>g t. chars (font (foldl (packChar env mw mh) ?l cs)) a = Some g \<and>
             texture g = Some t \<and> source t = 0"
      unfolding keep st(2) by simp
    with r show ?thesis by (intro exI [of _ row'] exI [of _ col']) auto
  next
    case False
    with Cons.prems(2) have col: "col = Suc n" by simp
    with fitW(2) have full: "mw < fadd (real col * ceil pw) pw" by simp
    have rm: "Suc row \<le> m"
    proof (rule ccontr)
      assume "\<not> Suc row \<le> m"
      with Cons.prems(3) have "row = m" by simp
      with Cons.prems(6) col show False by simp
    qed
    then have le: "real (Suc row) * ceil ph \<le> real m * ceil ph"
      using fitH(2) by (intro mult_right_mono) simp_all
    from fadd_mono [OF this, of ph] fitH(1)
    have fit: "fadd (real (Suc row) * ceil ph) ph \<le> mh" by simp
    have "real m * ceil ph \<le> real (Suc m) * ceil ph"
      using fitH(2) by (intro mult_right_mono) simp_all
    with le ex(2) have e: "real (Suc row) * ceil ph \<le> 2 ^ 53" by linarith
    note st = onGrid_step_new_shelf [OF Cons.prems(1) v full fit cw0 ex(1) fitH(2) e]
    have c1: "1 \<le> Suc n" by simp
    from Cons.prems(6) col have c2: "Suc row * Suc n + 1 + length cs \<le> Suc m * Suc n" by simp
    from Cons.IH [OF st(1) c1 rm dis rest c2]
    obtain row' col' where r: "onGrid env fnt pw ph (foldl (packChar env mw mh) ?l cs) row' col'"
      "col' \<le> Suc n" "row' \<le> m" "row' * Suc n + col' = Suc row * Suc n + 1 + length cs"
      "\<forall>c\<in>set cs. \<exists>g t. chars (font (foldl (packChar env mw mh) ?l cs)) c = Some g \<and>
             texture g = Some t \<and> source t = 0"
      by blast
    have "\<exists>g t. chars (font (foldl (packChar env mw mh) ?l cs)) a = Some g \<and>
             texture g = Some t \<and> source t = 0"
      unfolding keep st(2) by simp
    with r col show ?thesis by (intro exI [of _ row'] exI [of _ col']) auto
  qed
qed

lemma grid_full:
  fixes n m row col :: nat
  assumes "row * Suc n + col = Suc m * Suc n" "col \<le> Suc n" "row \<le> m"
  shows "row = m \<and> col = Suc n"
proof -
  from assms(3) have "row * Suc n \<le> m * Suc n" by (rule mult_le_mono1)
  with assms(1) have "Suc n \<le> col" by simp
  with assms(2) have c: "col = Suc n" by simp
  with assms(1) have "row * Suc n = m * Suc n" by simp
  then have "row = m" unfolding mult_cancel2 by simp
  with c show ?thesis by simp
qed

section \<open>Boxes known to end within the page\<close>






text \<open>The locals before a character of the list are those after the characters before it.\<close>

lemma packLoop_prefix:
  "packLoop env (pre @ c # post) fnt pd =
     foldl (packChar env (fdiv (canvasWidth pd) (resolution fnt))
              (fdiv (canvasHeight pd) (resolution fnt)))
       (packChar env (fdiv (canvasWidth pd) (resolution fnt))
          (fdiv (canvasHeight pd) (resolution fnt)) (packLoop env pre fnt pd) c)
       post"
  by (simp add: packLoop_def)

section \<open>The error of the frame computation\<close>

lemma three_roundings:
  fixes P px q r v sw fs :: real
  assumes P: "P = sw * fs" "sw \<noteq> 0" "fs \<noteq> 0"
    and e1: "\<bar>px - P\<bar> \<le> \<bar>P\<bar> / 2 ^ 53"
    and e2: "\<bar>q - v / px\<bar> \<le> \<bar>v / px\<bar> / 2 ^ 53"
    and e3: "\<bar>r - q * sw\<bar> \<le> \<bar>q * sw\<bar> / 2 ^ 53"
  shows "\<bar>r - v / fs\<bar> \<le> \<bar>v / fs\<bar> / 2 ^ 51"
proof -
  define A where "A = v / px * sw"
  define t where "t = v / fs"
  from P have P0: "P \<noteq> 0" by simp
  have px0: "px \<noteq> 0"
  proof
    assume "px = 0"
    with e1 have "\<bar>P\<bar> \<le> \<bar>P\<bar> / 2 ^ 53" by simp
    with P0 show False by simp
  qed
  have "A - t = A * ((P - px) / P)"
    using P px0 by (simp add: A_def t_def field_simps)
  then have "\<bar>A - t\<bar> = \<bar>A\<bar> * (\<bar>px - P\<bar> / \<bar>P\<bar>)"
    by (simp add: abs_mult abs_divide abs_minus_commute)
  also have "\<dots> \<le> \<bar>A\<bar> * (1 / 2 ^ 53)"
  proof (rule mult_left_mono)
    from e1 P0 show "\<bar>px - P\<bar> / \<bar>P\<bar> \<le> 1 / 2 ^ 53" by (simp add: field_simps)
  qed simp
  finally have h1: "\<bar>A - t\<bar> \<le> \<bar>A\<bar> / 2 ^ 53" by simp
  have "q * sw - A = (q - v / px) * sw" by (simp add: A_def algebra_simps)
  then have "\<bar>q * sw - A\<bar> = \<bar>q - v / px\<bar> * \<bar>sw\<bar>" by (simp add: abs_mult)
  also have "\<dots> \<le> \<bar>v / px\<bar> / 2 ^ 53 * \<bar>sw\<bar>"
    using e2 by (rule mult_right_mono) simp
  also have "\<dots> = \<bar>A\<bar> / 2 ^ 53" by (simp add: A_def abs_mult)
  finally have h2: "\<bar>q * sw - A\<bar> \<le> \<bar>A\<bar> / 2 ^ 53" .
  have t1: "\<bar>A\<bar> \<le> \<bar>t\<bar> + \<bar>A - t\<bar>" by linarith
  have t2: "\<bar>q * sw\<bar> \<le> \<bar>A\<bar> + \<bar>q * sw - A\<bar>" by linarith
  have t3: "\<bar>r - t\<bar> \<le> \<bar>r - q * sw\<bar> + \<bar>q * sw - A\<bar> + \<bar>A - t\<bar>" by linarith
  define X where "X = \<bar>A\<bar>"
  define T where "T = \<bar>t\<bar>"
  define Y where "Y = \<bar>q * sw\<bar>"
  define d1 where "d1 = \<bar>A - t\<bar>"
  define d2 where "d2 = \<bar>q * sw - A\<bar>"
  define d3 where "d3 = \<bar>r - q * sw\<bar>"
  define D where "D = \<bar>r - t\<bar>"
  from h1 h2 e3 t1 t2 t3
  have "d1 * 9007199254740992 \<le> X" "d2 * 9007199254740992 \<le> X" "d3 * 9007199254740992 \<le> Y"
    "X \<le> T + d1" "Y \<le> X + d2" "D \<le> d3 + d2 + d1" "0 \<le> d1" "0 \<le> d2" "0 \<le> d3"
    unfolding X_def T_def Y_def d1_def d2_def d3_def D_def by simp_all
  then have "D * 2251799813685248 \<le> T" by linarith
  then have "\<bar>r - t\<bar> \<le> \<bar>t\<bar> / 2 ^ 51" unfolding D_def T_def by simp
  then show ?thesis by (simp add: t_def)
qed


lemma half_bound: "0 \<le> a \<Longrightarrow> a / 2 ^ 53 \<le> a / (2::real)"
  by (rule divide_left_mono) simp_all

lemma coord_error:
  assumes "moderate sw" "moderate fs" "pixel v"
  shows "\<bar>fmul (fdiv v (fmul sw fs)) sw - v / fs\<bar> \<le> \<bar>v / fs\<bar> / 2 ^ 51"
proof (cases "v = 0")
  case True
  then show ?thesis by (simp add: fmul_def fdiv_def)
next
  case False
  with assms(3) have v: "1 / 2 ^ 100 \<le> \<bar>v\<bar>" by (simp add: pixel_def moderate_def)
  from assms(1,2) have sw: "1 / 2 ^ 100 \<le> \<bar>sw\<bar>" "\<bar>sw\<bar> \<le> 2 ^ 100"
    and fs: "1 / 2 ^ 100 \<le> \<bar>fs\<bar>" "\<bar>fs\<bar> \<le> 2 ^ 100"
    by (simp_all add: moderate_def)
  define P where "P = sw * fs"
  define px where "px = fl P"
  define q where "q = fl (v / px)"
  define r where "r = fl (q * sw)"
  from sw fs have n0: "sw \<noteq> 0" "fs \<noteq> 0" by auto
  have "1 / 2 ^ 100 * (1 / 2 ^ 100) \<le> \<bar>sw\<bar> * \<bar>fs\<bar>"
    using sw(1) fs(1) by (intro mult_mono) simp_all
  then have Pl: "1 / 2 ^ 200 \<le> \<bar>P\<bar>" by (simp add: P_def abs_mult)
  have "\<bar>sw\<bar> * \<bar>fs\<bar> \<le> 2 ^ 100 * 2 ^ 100"
    using sw(2) fs(2) by (intro mult_mono) simp_all
  then have Pu: "\<bar>P\<bar> \<le> 2 ^ 200" by (simp add: P_def abs_mult)
  have "(1::real) / 2 ^ 1022 \<le> 1 / 2 ^ 200" by simp
  with Pl have "1 / 2 ^ 1022 \<le> \<bar>P\<bar>" by linarith
  from fl_error [OF this] have e1: "\<bar>px - P\<bar> \<le> \<bar>P\<bar> / 2 ^ 53" by (simp add: px_def)
  have tpx: "\<bar>px\<bar> \<le> \<bar>P\<bar> + \<bar>px - P\<bar>" "\<bar>P\<bar> \<le> \<bar>px\<bar> + \<bar>px - P\<bar>" by linarith+
  have half: "\<bar>P\<bar> / 2 ^ 53 \<le> \<bar>P\<bar> / 2" by (rule half_bound) simp
  from e1 half tpx(1) have "\<bar>px\<bar> \<le> \<bar>P\<bar> + \<bar>P\<bar> / 2" by linarith
  with Pu have pxu: "\<bar>px\<bar> \<le> 2 ^ 201" by simp
  from e1 half tpx(2) have "\<bar>P\<bar> / 2 \<le> \<bar>px\<bar>" by linarith
  moreover from Pl have "0 < \<bar>P\<bar>" by (smt (verit) divide_pos_pos zero_less_numeral zero_less_power)
  ultimately have pxl: "0 < \<bar>px\<bar>" by linarith
  have "(1 / 2 ^ 100) / 2 ^ 201 \<le> \<bar>v\<bar> / \<bar>px\<bar>"
    using v pxu pxl by (intro frac_le) simp_all
  then have ql: "1 / 2 ^ 301 \<le> \<bar>v / px\<bar>" by (simp add: abs_divide)
  have "(1::real) / 2 ^ 1022 \<le> 1 / 2 ^ 301" by simp
  with ql have "1 / 2 ^ 1022 \<le> \<bar>v / px\<bar>" by linarith
  from fl_error [OF this] have e2: "\<bar>q - v / px\<bar> \<le> \<bar>v / px\<bar> / 2 ^ 53" by (simp add: q_def)
  have tq: "\<bar>v / px\<bar> \<le> \<bar>q\<bar> + \<bar>q - v / px\<bar>" by linarith
  have half2: "\<bar>v / px\<bar> / 2 ^ 53 \<le> \<bar>v / px\<bar> / 2" by (rule half_bound) simp
  define a where "a = \<bar>v / px\<bar>"
  define b where "b = \<bar>q - v / px\<bar>"
  from e2 half2 tq have "b \<le> a / 2 ^ 53" "a / 2 ^ 53 \<le> a / 2" "a \<le> \<bar>q\<bar> + b"
    unfolding a_def b_def by blast+
  then have aq: "a / 2 \<le> \<bar>q\<bar>" by linarith
  from ql have "1 / 2 ^ 301 / 2 \<le> a / 2" unfolding a_def by (rule divide_right_mono) simp
  moreover have "(1::real) / 2 ^ 302 = 1 / 2 ^ 301 / 2" by simp
  ultimately have q2: "1 / 2 ^ 302 \<le> \<bar>q\<bar>" using aq by linarith
  have "1 / 2 ^ 302 * (1 / 2 ^ 100) \<le> \<bar>q\<bar> * \<bar>sw\<bar>"
    using q2 sw(1) by (intro mult_mono) simp_all
  then have rl: "1 / 2 ^ 402 \<le> \<bar>q * sw\<bar>" by (simp add: abs_mult)
  have "(1::real) / 2 ^ 1022 \<le> 1 / 2 ^ 402" by simp
  with rl have "1 / 2 ^ 1022 \<le> \<bar>q * sw\<bar>" by linarith
  from fl_error [OF this] have e3: "\<bar>r - q * sw\<bar> \<le> \<bar>q * sw\<bar> / 2 ^ 53" by (simp add: r_def)
  from three_roundings [OF P_def n0 e1 e2 e3] show ?thesis
    by (simp add: r_def q_def px_def P_def fmul_def fdiv_def)
qed

section \<open>The example fonts\<close>

lemma demoFont_fields:
  "currentPageIndex demoFont = - 1" "currentChars demoFont = []" "skipKerning demoFont = False"
  "currentX demoFont = 0" "currentY demoFont = 0" "resolution demoFont = 1"
  "textureSize demoFont = 64" "pages demoFont = Map.empty" "fontScale demoFont = 1"
  "scaledPadding demoFont = 0" "italic (style demoFont) = False" "padding demoFont = 0"
  "stroke (style demoFont) = None" "dropShadow (style demoFont) = None"
  "baseRenderedFontSize demoFont = 100" "baseMeasurementFontSize demoFont = 100"
  "chars demoFont = Map.empty" "measureCache demoFont = Map.empty"
  by (simp_all add: demoFont_def demoOptions_def newDynamicBitmapFont_def fontScale_def
      scaledPadding_def fl_simps)

lemma demo_padded:
  "paddedWidth demoEnv demoFont 97 = 40" "paddedWidth demoEnv demoFont 98 = 40"
  "paddedWidth demoEnv demoFont 99 = 10"
  "paddedHeight demoEnv demoFont 97 = 30" "paddedHeight demoEnv demoFont 98 = 30"
  "paddedHeight demoEnv demoFont 99 = 50"
  by (simp_all add: paddedWidth_def paddedHeight_def demoFont_fields demoEnv_def ceil_def fl_simps)


lemma demo_padded_space:
  "paddedWidth demoEnv demoFont 32 = 30" "paddedHeight demoEnv demoFont 32 = 30"
  by (simp_all add: paddedWidth_def paddedHeight_def demoFont_fields demoEnv_def ceil_def fl_simps)

lemma demo_charList: "charListOf demoEnv ''abc'' demoFont = [97, 98, 99]"
  by (simp add: charListOf_def indexOf_def demoFont_fields demoEnv_def)


lemma demo_charList_A: "charListOf demoEnv ''A'' (newDynamicBitmapFont bm br options) = [65]"
  by (simp add: charListOf_def indexOf_def demoEnv_def newDynamicBitmapFont_def Let_def)

lemma demo_charList_AV:
  "charListOf demoEnv ''AV'' (newDynamicBitmapFont bm br options) = [65, 86]"
  by (simp add: charListOf_def indexOf_def demoEnv_def newDynamicBitmapFont_def Let_def)

lemma demo_charList_z:
  "charListOf demoEnv ''z'' (newDynamicBitmapFont bm br options) = [122]"
  by (simp add: charListOf_def indexOf_def demoEnv_def newDynamicBitmapFont_def Let_def)

lemma demo_page: "pageAt demoEnv demoFont i =
  \<lparr>pageIndex = i, canvasWidth = 64, canvasHeight = 64, sourceWidth = 64, sourceHeight = 64,
   sourceResolution = 1\<rparr>"
  by (simp add: pageAt_def demoFont_fields demoEnv_def Let_def fl_simps)

lemma demo_widths:
  "measureTextWidth demoEnv [65] = 30" "measureTextWidth demoEnv [86] = 28"
  "measureTextWidth demoEnv [65, 86] = 53" "measureTextWidth demoEnv [86, 65] = 54"
  "measureTextWidth demoEnv [65, 65] = 60" "measureTextWidth demoEnv [86, 86] = 56"
  "measureTextWidth demoEnv [122] = 0" "measureTextWidth demoEnv [122, 122] = 0"
  by (simp_all add: demoEnv_def)

lemma fl_half: "fl (1 / 2) = 1 / 2"
  using fl_dyadic [of 1 1] by simp

lemma half_fields:
  "fontScale halfFont = 1 / 2" "scaledPadding halfFont = 0" "italic (style halfFont) = False"
  "resolution halfFont = 1" "textureSize halfFont = 64"
  "baseRenderedFontSize halfFont = 50" "baseMeasurementFontSize halfFont = 100"
  by (simp_all add: halfFont_def demoOptions_def newDynamicBitmapFont_def fontScale_def
      scaledPadding_def fl_simps fl_half)

lemma kerningFont_fields:
  "currentPageIndex kerningFont = - 1" "currentChars kerningFont = []"
  "skipKerning kerningFont = True" "measureCache kerningFont = Map.empty"
  "measured kerningFont = []" "chars kerningFont = Map.empty"
  by (simp_all add: kerningFont_def demoOptions_def newDynamicBitmapFont_def)

lemma packAll_measured_single:
  "measured (packAll env [c] f pd) = measured f @ [[c]]"
  by (simp add: packAll_def packLoop_def Let_def packChar_measured)

lemma packAll_single_glyphs:
  "\<exists>g. chars (packAll env [c] f pd) c = Some g \<and> kerning g = Map.empty"
  "c' \<noteq> c \<Longrightarrow> chars (packAll env [c] f pd) c' = chars f c'"
  by (simp_all add: packAll_parts packLoop_def packChar_glyph packChar_other)

lemma kerningFont_page:
  "paddedWidth demoEnv kerningFont 122 = 0" "currentX kerningFont = 0"
  "resolution kerningFont = 1" "canvasWidth (pageAt demoEnv kerningFont 0) = 64"
  by (simp_all add: paddedWidth_def pageAt_def scaledPadding_def fontScale_def kerningFont_def
      demoOptions_def newDynamicBitmapFont_def demoEnv_def ceil_def Let_def fl_simps)

lemma demo_widths_Az: "measureTextWidth demoEnv [65, 122] = 0"
  by (simp add: demoEnv_def)

lemma fl_dyadics:
  "fl (1 / 2) = 1 / 2" "fl (1 / 4) = 1 / 4" "fl (1 / 8) = 1 / 8"
  "(numeral n :: int) \<le> 9007199254740992 \<Longrightarrow> fl (numeral n / 2) = numeral n / 2"
  "(numeral n :: int) \<le> 9007199254740992 \<Longrightarrow> fl (numeral n / 4) = numeral n / 4"
  "(numeral n :: int) \<le> 9007199254740992 \<Longrightarrow> fl (numeral n / 8) = numeral n / 8"
  "(numeral n :: int) \<le> 9007199254740992 \<Longrightarrow> fl (numeral n / 16) = numeral n / 16"
  "(numeral n :: int) \<le> 9007199254740992 \<Longrightarrow> fl (numeral n / 32) = numeral n / 32"
  "(numeral n :: int) \<le> 9007199254740992 \<Longrightarrow> fl (numeral n / 64) = numeral n / 64"
  "(numeral n :: int) \<le> 9007199254740992 \<Longrightarrow> fl (numeral n / 128) = numeral n / 128"
  "(numeral n :: int) \<le> 9007199254740992 \<Longrightarrow> fl (numeral n / 256) = numeral n / 256"
  using fl_dyadic [of 1 1] fl_dyadic [of 1 2] fl_dyadic [of 1 3]
    fl_dyadic [of "numeral n" 1] fl_dyadic [of "numeral n" 2] fl_dyadic [of "numeral n" 3]
    fl_dyadic [of "numeral n" 4] fl_dyadic [of "numeral n" 5] fl_dyadic [of "numeral n" 6]
    fl_dyadic [of "numeral n" 7] fl_dyadic [of "numeral n" 8]
  by simp_all

text \<open>
  Products that are whole numbers over the reals and not in doubles: at a font scale of
  0.28 a character 50 wide is 14.000000000000002 wide and takes 15 pixels; at a scale of
  0.14 it takes 8 pixels, and a height of 300 becomes 42.00000000000001.
\<close>

lemma rounded_products:
  "fmul 50 (fdiv 28 100) = 7881299347898369 / 562949953421312"
  "ceil (fmul 50 (fdiv 28 100)) = 15"
  "ceil (fmul 50 (fdiv 14 100)) = 8"
  "fmul 300 (fdiv 14 100) = 5910974510923777 / 140737488355328"
  "ceil (fmul 300 (fdiv 14 100)) = 43"
proof -
  have a: "fl (7 / 25) = 1261007895663739 / 4503599627370496"
    by (subst fl_eval [where a = 0 and b = 2]) (simp_all add: roundHalfEven_def)
  have b: "fl (31525197391593475 / 2251799813685248) = 7881299347898369 / 562949953421312"
    by (subst fl_eval [where a = 3 and b = 0]) (simp_all add: roundHalfEven_def)
  have c: "fl (7 / 50) = 1261007895663739 / 9007199254740992"
    by (subst fl_eval [where a = 0 and b = 3]) (simp_all add: roundHalfEven_def)
  have d: "fl (31525197391593475 / 4503599627370496) = 7881299347898369 / 1125899906842624"
    by (subst fl_eval [where a = 2 and b = 0]) (simp_all add: roundHalfEven_def)
  have e: "fl (94575592174780425 / 2251799813685248) = 5910974510923777 / 140737488355328"
    by (subst fl_eval [where a = 5 and b = 0]) (simp_all add: roundHalfEven_def)
  show "fmul 50 (fdiv 28 100) = 7881299347898369 / 562949953421312"
    "ceil (fmul 50 (fdiv 28 100)) = 15"
    "ceil (fmul 50 (fdiv 14 100)) = 8"
    "fmul 300 (fdiv 14 100) = 5910974510923777 / 140737488355328"
    "ceil (fmul 300 (fdiv 14 100)) = 43"
    by (simp_all add: fmul_def fdiv_def ceil_def a b c d e)
qed

lemma gridFont_fields:
  "currentPageIndex gridFont = - 1" "currentChars gridFont = []" "skipKerning gridFont = False"
  "currentX gridFont = 0" "currentY gridFont = 0" "resolution gridFont = 1"
  "textureSize gridFont = 64" "pages gridFont = Map.empty" "fontScale gridFont = 1"
  "scaledPadding gridFont = 1 / 8" "italic (style gridFont) = False" "padding gridFont = 1 / 8"
  "chars gridFont = Map.empty"
  by (simp_all add: gridFont_def demoOptions_def newDynamicBitmapFont_def fontScale_def
      scaledPadding_def fl_simps fl_dyadics)

lemma grid_padded:
  "paddedWidth gridEnv gridFont c = 85 / 4" "paddedHeight gridEnv gridFont c = 30"
  by (simp_all add: paddedWidth_def paddedHeight_def gridFont_fields gridEnv_def ceil_def
      fl_simps fl_dyadics)

lemma grid_page: "pageAt gridEnv gridFont i =
  \<lparr>pageIndex = i, canvasWidth = 64, canvasHeight = 64, sourceWidth = 64, sourceHeight = 64,
   sourceResolution = 1\<rparr>"
  by (simp add: pageAt_def gridFont_fields gridEnv_def demoEnv_def Let_def fl_simps
      gridFont_def demoOptions_def newDynamicBitmapFont_def)

lemma grid_charList: "charListOf gridEnv ''abcdefg'' gridFont = [97, 98, 99, 100, 101, 102, 103]"
  by (simp add: charListOf_def indexOf_def gridFont_fields gridEnv_def demoEnv_def)

lemma scaled_fl:
  "fl (13 / 50) = 1170935903116329 / 4503599627370496"
  "fl (1170935903116329 / 4503599627370496) = 1170935903116329 / 4503599627370496"
  "fl (2305843009213693952 / 1170935903116329) = 4330384257087015 / 2199023255552"
  "fl (29273397577908225 / 2251799813685248) = 13"
  "fl (29273397577908225 / 1125899906842624) = 26"
  "fl (5070602400912917328842220367935 / 9903520314283042199192993792) = 512"
  "fl (13 / 512) = 13 / 512"
  "fl (56294995342131195 / 1125899906842624) = 7036874417766399 / 140737488355328"
  "fl (58546795155816448 / 1170935903116329) = 50"
  "fl (1170935903116329 / 8796093022208) = 1170935903116329 / 8796093022208"
  "fl (114349209288704 / 1170935903116329) = 25 / 256"
proof -
  show "fl (13 / 50) = 1170935903116329 / 4503599627370496"
    by (subst fl_eval [where a = 0 and b = 2]) (simp_all add: roundHalfEven_def)
  show "fl (1170935903116329 / 4503599627370496) = 1170935903116329 / 4503599627370496"
    using fl_dyadic [of 1170935903116329 52] by simp
  show "fl (2305843009213693952 / 1170935903116329) = 4330384257087015 / 2199023255552"
    by (subst fl_eval [where a = 10 and b = 0]) (simp_all add: roundHalfEven_def)
  show "fl (29273397577908225 / 2251799813685248) = 13"
    by (subst fl_eval [where a = 3 and b = 0]) (simp_all add: roundHalfEven_def)
  show "fl (29273397577908225 / 1125899906842624) = 26"
    by (subst fl_eval [where a = 4 and b = 0]) (simp_all add: roundHalfEven_def)
  show "fl (5070602400912917328842220367935 / 9903520314283042199192993792) = 512"
    by (subst fl_eval [where a = 8 and b = 0]) (simp_all add: roundHalfEven_def)
  show "fl (13 / 512) = 13 / 512"
    using fl_dyadic [of 13 9] by simp
  show "fl (56294995342131195 / 1125899906842624) = 7036874417766399 / 140737488355328"
    by (subst fl_eval [where a = 5 and b = 0]) (simp_all add: roundHalfEven_def)
  show "fl (58546795155816448 / 1170935903116329) = 50"
    by (subst fl_eval [where a = 5 and b = 0]) (simp_all add: roundHalfEven_def)
  show "fl (1170935903116329 / 8796093022208) = 1170935903116329 / 8796093022208"
    using fl_dyadic [of 1170935903116329 43] by simp
  show "fl (114349209288704 / 1170935903116329) = 25 / 256"
    by (subst fl_eval [where a = 0 and b = 4]) (simp_all add: roundHalfEven_def)
qed

lemma scaledFont_fields:
  "currentPageIndex scaledFont = - 1" "currentChars scaledFont = []"
  "skipKerning scaledFont = False"
  "currentX scaledFont = 0" "currentY scaledFont = 0" "resolution scaledFont = 1"
  "textureSize scaledFont = 512" "pages scaledFont = Map.empty"
  "fontScale scaledFont = 1170935903116329 / 4503599627370496"
  "scaledPadding scaledFont = 0" "italic (style scaledFont) = False" "padding scaledFont = 0"
  "chars scaledFont = Map.empty" "drawn scaledFont = []"
  by (simp_all add: scaledFont_def demoOptions_def newDynamicBitmapFont_def fontScale_def
      scaledPadding_def fl_simps scaled_fl)

lemma scaled_padded: "paddedWidth scaleEnv scaledFont c = 13" "paddedHeight scaleEnv scaledFont c = 26"
  by (simp_all add: paddedWidth_def paddedHeight_def scaledFont_fields scaleEnv_def ceil_def
      fl_simps scaled_fl)

lemma scaled_page: "pageAt scaleEnv scaledFont i =
  \<lparr>pageIndex = i, canvasWidth = 512, canvasHeight = 512,
   sourceWidth = 4330384257087015 / 2199023255552,
   sourceHeight = 4330384257087015 / 2199023255552,
   sourceResolution = 1170935903116329 / 4503599627370496\<rparr>"
  by (simp add: pageAt_def scaleEnv_def demoEnv_def Let_def fl_simps scaled_fl
      scaledFont_def demoOptions_def newDynamicBitmapFont_def)

lemma scaled_charList: "charListOf scaleEnv ''ab'' scaledFont = [97, 98]"
  by (simp add: charListOf_def indexOf_def scaledFont_fields scaleEnv_def demoEnv_def)

lemma started_drawn:
  "drawn (fst (nextPage env (f\<lparr>currentChars := cc\<rparr>))) = drawn f"
  by (simp add: nextPage_font)

lemma demo_kerning_AV:
  assumes "p = packAll demoEnv [65, 86]
      (fst (nextPage demoEnv (kerningFont\<lparr>currentChars := currentChars kerningFont @ [65, 86]\<rparr>)))
      (pageAt demoEnv kerningFont 0)"
  shows "ensureCharacters demoEnv ''AV'' kerningFont = applyKerning demoEnv [65, 86] p"
    and "currentChars p = [65, 86]"
    and "\<exists>f1 g1. forEach (kernPair demoEnv 65) (currentChars p) p = Inr f1 \<and>
           chars f1 65 = Some g1 \<and> kerning g1 86 = Some (- 5) \<and>
           (\<exists>f g. forEach (kernPair demoEnv 86) (currentChars f1) f1 = Inr f \<and>
               applyKerning demoEnv [65, 86] p = Inr f \<and>
               chars f 65 = Some g \<and> kerning g 86 = Some (- 4))"
proof -
  show run: "ensureCharacters demoEnv ''AV'' kerningFont = applyKerning demoEnv [65, 86] p"
    using ensureCharacters_first [OF kerningFont_fields(1), of demoEnv "''AV''" "[65, 86]"]
    by (simp add: assms kerningFont_fields(3)) (simp add: kerningFont_def demo_charList_AV)
  show cc: "currentChars p = [65, 86]"
    using packed_first(1) [OF kerningFont_fields(1,2) _ assms, of 65] by simp
  have mc: "measureCache p = Map.empty"
    using packed_first(2) [OF kerningFont_fields(1,2) _ assms, of 65]
    by (simp add: kerningFont_fields)
  from packed_first(3) [OF kerningFont_fields(1,2) _ assms, of 65]
  obtain gA where gA: "chars p 65 = Some gA" "kerning gA = Map.empty" by auto
  from packed_first(3) [OF kerningFont_fields(1,2) _ assms, of 86]
  obtain gV where gV: "chars p 86 = Some gV" "kerning gV = Map.empty" by auto
  show "\<exists>f1 g1. forEach (kernPair demoEnv 65) (currentChars p) p = Inr f1 \<and>
           chars f1 65 = Some g1 \<and> kerning g1 86 = Some (- 5) \<and>
           (\<exists>f g. forEach (kernPair demoEnv 86) (currentChars f1) f1 = Inr f \<and>
               applyKerning demoEnv [65, 86] p = Inr f \<and>
               chars f 65 = Some g \<and> kerning g 86 = Some (- 4))"
    by (simp add: applyKerning_def cc mc gA gV kernPair_def cachedWidth_def setKerning_def Let_def
        demo_widths fl_simps)
qed

section \<open>The properties of the specification\<close>

text \<open>
  C1. The property: the kerning computation runs at the end of \<open>ensureCharacters\<close> if and
  only if \<open>skipKerning\<close> is false, and a font with kerning disabled never gets a kerning
  entry. The code, at line 263, runs it if and only if \<open>skipKerning\<close> is true. With
  \<open>skipKerning\<close> left out (kerning enabled), \<open>ensureCharacters('AV')\<close> leaves the kerning
  table of \<open>A\<close> empty although the pair is 5 narrower than its letters; with
  \<open>skipKerning: true\<close> (kerning disabled) the same call writes an entry for \<open>V\<close> into it.
\<close>

theorem kerning_gate_inverted:
  "opt_skipKerning demoOptions = None \<and> skipKerning demoFont = False \<and>
   (\<exists>f g. ensureCharacters demoEnv ''AV'' demoFont = Inr f \<and> chars f 65 = Some g \<and>
      kerning g = Map.empty) \<and>
   measureTextWidth demoEnv [65, 86]
     - (measureTextWidth demoEnv [65] + measureTextWidth demoEnv [86]) = - 5 \<and>
   skipKerning kerningFont = True \<and>
   (\<exists>f g. ensureCharacters demoEnv ''AV'' kerningFont = Inr f \<and> chars f 65 = Some g \<and>
      kerning g 86 = Some (- 4))"
proof -
  from ensureCharacters_total [OF wellFormed_new, of demoEnv "''AV''" 100 100 demoOptions]
  obtain f where f: "ensureCharacters demoEnv ''AV'' demoFont = Inr f"
    unfolding demoFont_def by blast
  have "65 \<in> set (charListOf demoEnv ''AV'' demoFont)"
    by (simp add: demoFont_def demo_charList_AV)
  from ensureCharacters_new_glyph [OF f this]
  have off: "\<exists>f g. ensureCharacters demoEnv ''AV'' demoFont = Inr f \<and> chars f 65 = Some g \<and>
      kerning g = Map.empty"
    using f by (auto simp: demoFont_fields)
  from demo_kerning_AV(1,3) [OF refl]
  have on: "\<exists>f g. ensureCharacters demoEnv ''AV'' kerningFont = Inr f \<and> chars f 65 = Some g \<and>
      kerning g 86 = Some (- 4)"
    by auto
  from off on show ?thesis
    by (simp add: demoFont_fields kerningFont_fields demo_widths demoOptions_def)
qed

text \<open>
  C2. A second call of \<open>ensureCharacters\<close> with the same string returns the font of the
  first call unchanged: no glyph record, no cursor movement, no page, no call of
  \<open>_drawGlyph\<close>. In general a call whose filtered list of new characters is empty returns
  the font as it was.
\<close>

theorem ensureCharacters_idempotent:
  "(ensureCharacters env str fnt = Inr fnt' \<longrightarrow> ensureCharacters env str fnt' = Inr fnt') \<and>
   (charListOf env str fnt = [] \<longrightarrow> ensureCharacters env str fnt = Inr fnt)"
proof (intro conjI impI)
  assume r: "ensureCharacters env str fnt = Inr fnt'"
  have "set (resolveCharacters env str) \<subseteq> set (currentChars fnt')"
    using set_charListOf [of env str fnt]
    by (auto simp: ensureCharacters_currentChars [OF r])
  then have "charListOf env str fnt' = []" by (simp add: charListOf_empty_iff)
  then show "ensureCharacters env str fnt' = Inr fnt'" by (rule ensureCharacters_empty)
next
  assume "charListOf env str fnt = []"
  then show "ensureCharacters env str fnt = Inr fnt" by (rule ensureCharacters_empty)
qed

theorem ensureCharacters_idempotent_witness:
  "(\<exists>f. ensureCharacters demoEnv ''abc'' demoFont = Inr f \<and>
        ensureCharacters demoEnv ''abc'' f = Inr f) \<and>
   charListOf demoEnv ''abc'' demoFont = [97, 98, 99] \<and>
   charListOf demoEnv [] demoFont = [] \<and>
   ensureCharacters demoEnv [] demoFont = Inr demoFont"
proof -
  from ensureCharacters_total [OF wellFormed_new, of demoEnv "''abc''" 100 100 demoOptions]
  obtain f where f: "ensureCharacters demoEnv ''abc'' demoFont = Inr f"
    unfolding demoFont_def by blast
  with ensureCharacters_idempotent [of demoEnv "''abc''" demoFont f]
  have twice: "ensureCharacters demoEnv ''abc'' f = Inr f" by simp
  have e: "charListOf demoEnv [] demoFont = []"
    by (simp add: charListOf_def demoEnv_def)
  with ensureCharacters_idempotent [of demoEnv "[]" demoFont]
  have "ensureCharacters demoEnv [] demoFont = Inr demoFont" by simp
  with f twice e demo_charList show ?thesis by blast
qed

text \<open>
  C3. The property: a whitespace character gets no texture, is never drawn, and never
  increases \<open>maxCharHeight\<close>. The first two parts hold (\<open>ensureCharacters_new_glyph\<close>,
  \<open>packChar_drawn\<close>); the third fails where a whitespace character wraps the shelf, since
  line 194 assigns its padded height whatever the character is. After
  \<open>ensureCharacters('a')\<close> the cursor stands at \<open>x = 40\<close> on a page 64 wide. A second call
  \<open>ensureCharacters(' ')\<close> starts its loop with \<open>maxCharHeight = 0\<close>; the space, 30 wide and
  30 high, fails the placement test, and the wrap sets \<open>maxCharHeight\<close> to its padded
  height 30.
\<close>

theorem whitespace_raises_shelf_height:
  "\<exists>f pd. ensureCharacters demoEnv ''a'' demoFont = Inr f \<and>
      isWhitespace 32 \<and> charListOf demoEnv '' '' f = [32] \<and>
      currentPage demoEnv (f\<lparr>currentChars := currentChars f @ [32]\<rparr>)
        = Inr (f\<lparr>currentChars := currentChars f @ [32]\<rparr>, pd) \<and>
      maxCharHeight (packLoop demoEnv [] (f\<lparr>currentChars := currentChars f @ [32]\<rparr>) pd) = 0 \<and>
      maxCharHeight (packLoop demoEnv [32] (f\<lparr>currentChars := currentChars f @ [32]\<rparr>) pd) = 30"
proof -
  define f where "f = packAll demoEnv [97]
      (fst (nextPage demoEnv (demoFont\<lparr>currentChars := currentChars demoFont @ [97]\<rparr>)))
      (pageAt demoEnv demoFont 0)"
  have cl: "charListOf demoEnv ''a'' demoFont = [97]"
    by (simp add: charListOf_def indexOf_def demoFont_fields demoEnv_def)
  have run: "ensureCharacters demoEnv ''a'' demoFont = Inr f"
    using ensureCharacters_first [OF demoFont_fields(1) cl] by (simp add: f_def demoFont_fields)
  have ff: "currentChars f = [97]" "currentX f = 40" "currentY f = 0" "currentPageIndex f = 0"
    "pages f 0 = Some (pageAt demoEnv demoFont 0)" "resolution f = 1"
    by (simp_all add: f_def packAll_kept packAll_parts packLoop_def demoFont_fields
        packChar_cursorX packChar_cursorY packChar_currentPageIndex packChar_pages
        started_derived started_fields wraps_def overflows_def shelfHeight_def demo_padded
        demo_page isWhitespace_def ceil_def fl_simps)
  have pf: "paddedWidth demoEnv f c = paddedWidth demoEnv demoFont c"
    "paddedHeight demoEnv f c = paddedHeight demoEnv demoFont c" for c
    by (simp_all add: f_def packAll_derived started_derived)
  have ws: "isWhitespace 32" by (simp add: isWhitespace_def)
  have cl2: "charListOf demoEnv '' '' f = [32]"
    by (simp add: charListOf_def indexOf_def ff demoEnv_def)
  let ?f1 = "f\<lparr>currentChars := currentChars f @ [32]\<rparr>"
  have cp: "currentPage demoEnv ?f1 = Inr (?f1, pageAt demoEnv demoFont 0)"
    by (simp add: currentPage_def ff)
  have m0: "maxCharHeight (packLoop demoEnv [] ?f1 (pageAt demoEnv demoFont 0)) = 0"
    by (simp add: packLoop_def)
  have m1: "maxCharHeight (packLoop demoEnv [32] ?f1 (pageAt demoEnv demoFont 0)) = 30"
    by (simp add: packLoop_def packChar_maxCharHeight wraps_def ff currentChars_derived pf
        demo_padded_space demo_page fl_simps)
  from run ws cl2 cp m0 m1 show ?thesis by blast
qed

text \<open>
  C4. The property: the kerning computation never overwrites a non-zero entry
  \<open>chars[x].kerning[y]\<close> with a different value, also when \<open>x\<close> and \<open>y\<close> come in one
  batch. The code measures \<open>first + second\<close> for both directions of a pair (lines 301 and
  310), so the two iterations that meet a pair write different values into the same
  entry. With the demo collaborator, \<open>AV\<close> is 5 narrower and \<open>VA\<close> is 4 narrower than the
  two letters apart. In the kerning pass of \<open>ensureCharacters('AV')\<close> the iteration for
  \<open>first = A\<close> stores \<open>chars[A].kerning[V] = - 5\<close>; the iteration for \<open>first = V\<close>
  overwrites it with \<open>- 4\<close>.
\<close>

theorem kerning_entry_overwritten:
  "\<exists>p. ensureCharacters demoEnv ''AV'' kerningFont = applyKerning demoEnv [65, 86] p \<and>
       currentChars p = [65, 86] \<and>
       (\<exists>f1 g1. forEach (kernPair demoEnv 65) (currentChars p) p = Inr f1 \<and>
           chars f1 65 = Some g1 \<and> kerning g1 86 = Some (- 5) \<and>
           (\<exists>f g. forEach (kernPair demoEnv 86) (currentChars f1) f1 = Inr f \<and>
               applyKerning demoEnv [65, 86] p = Inr f \<and>
               chars f 65 = Some g \<and> kerning g 86 = Some (- 4)))"
  using demo_kerning_AV [OF refl] by blast

text \<open>
  C5. The property: once the width of a character is in the measure cache, the kerning
  pass never measures that character again. The code tests the cached value with \<open>!c\<close>
  (lines 295 and 299), which is also true of a cached 0. The demo collaborator measures
  \<open>z\<close> as 0 wide. In the kerning pass of
  \<open>ensureCharacters('z')\<close> the width of \<open>z\<close> is measured for \<open>c1\<close> and stored in the cache,
  and measured again for \<open>c2\<close>, since the cached 0 is falsy: the list of measurements
  holds \<open>z\<close> once for the packer and twice for the kerning pass. A later call
  \<open>ensureCharacters('A')\<close> on the same font runs a second kerning pass, which measures
  \<open>z\<close> once more although its width is still in the cache, while the cached width of
  \<open>A\<close> (30) is reused for the pair of \<open>A\<close> with itself.
\<close>

theorem zero_width_measured_again:
  "measureTextWidth demoEnv [122] = 0 \<and>
   (\<exists>f. ensureCharacters demoEnv ''z'' kerningFont = Inr f \<and>
        measureCache f 122 = Some 0 \<and>
        measured f = [[122], [122], [122], [122, 122], [122, 122]] \<and>
        (\<exists>f'. ensureCharacters demoEnv ''A'' f = Inr f' \<and>
           measured f' = measured f @ [[65], [65], [122], [65, 122], [65, 122], [65, 65], [65, 65]]))"
proof -
  define p where "p = packAll demoEnv [122]
      (fst (nextPage demoEnv (kerningFont\<lparr>currentChars := currentChars kerningFont @ [122]\<rparr>)))
      (pageAt demoEnv kerningFont 0)"
  have run: "ensureCharacters demoEnv ''z'' kerningFont = applyKerning demoEnv [122] p"
    using ensureCharacters_first [OF kerningFont_fields(1), of demoEnv "''z''" "[122]"]
    by (simp add: p_def kerningFont_fields(3)) (simp add: kerningFont_def demo_charList_z)
  have cc: "currentChars p = [122]"
    using packed_first(1) [OF kerningFont_fields(1,2) _ p_def, of 122] by simp
  have mc: "measureCache p = Map.empty"
    using packed_first(2) [OF kerningFont_fields(1,2) _ p_def, of 122]
    by (simp add: kerningFont_fields)
  have ms: "measured p = [[122]]"
    by (simp add: p_def packed_first_measured kerningFont_fields)
  from packed_first(3) [OF kerningFont_fields(1,2) _ p_def, of 122]
  obtain g where g: "chars p 122 = Some g" by auto
  have pp: "currentPageIndex p = 0" "pages p 0 = Some (pageAt demoEnv kerningFont 0)"
    "skipKerning p = True"
    using packingOnly_fields(5) [OF nextPage_packingOnly,
        of demoEnv "kerningFont\<lparr>currentChars := [122]\<rparr>"]
    by (simp_all add: p_def packAll_parts packAll_kept packLoop_def packChar_currentPageIndex
        packChar_pages overflows_def wraps_def started_derived started_fields
        kerningFont_fields kerningFont_page fl_simps)
  have "\<exists>f. applyKerning demoEnv [122] p = Inr f \<and> measureCache f 122 = Some 0 \<and>
        measureCache f 65 = None \<and>
        measured f = [[122], [122], [122], [122, 122], [122, 122]]"
    by (simp add: applyKerning_def cc mc ms g kernPair_def cachedWidth_def setKerning_def Let_def
        demo_widths fl_simps)
  then obtain f where f: "applyKerning demoEnv [122] p = Inr f" "measureCache f 122 = Some 0"
    "measureCache f 65 = None"
    "measured f = [[122], [122], [122], [122, 122], [122, 122]]" by blast
  note k = applyKerning_kerningOnly [OF f(1)]
  from kerningOnly_glyph [OF k g] obtain kz where gz: "chars f 122 = Some (g\<lparr>kerning := kz\<rparr>)"
    by blast
  have ff: "currentChars f = [122]" "currentPageIndex f = 0"
    "pages f 0 = Some (pageAt demoEnv kerningFont 0)" "skipKerning f = True"
    using kerningOnly_fields [OF k] by (simp_all add: cc pp)
  have cl2: "charListOf demoEnv ''A'' f = [65]"
    by (simp add: charListOf_def indexOf_def ff demoEnv_def)
  let ?f1 = "f\<lparr>currentChars := currentChars f @ [65]\<rparr>"
  define q where "q = packAll demoEnv [65] ?f1 (pageAt demoEnv kerningFont 0)"
  have cp: "currentPage demoEnv ?f1 = Inr (?f1, pageAt demoEnv kerningFont 0)"
    by (simp add: currentPage_def ff)
  have run2: "ensureCharacters demoEnv ''A'' f = applyKerning demoEnv [65] q"
    using ensureCharacters_packed [of demoEnv "''A''" f ?f1 "pageAt demoEnv kerningFont 0"] cp
    by (simp add: cl2 q_def packAll_kept ff)
  have qq: "currentChars q = [122, 65]" "measureCache q 122 = Some 0" "measureCache q 65 = None"
    "measured q = measured f @ [[65]]"
    by (simp_all add: q_def packAll_kept packAll_measured_single ff f)
  from packAll_single_glyphs(1) [of demoEnv 65 ?f1 "pageAt demoEnv kerningFont 0"]
  obtain gA where gA: "chars q 65 = Some gA" "kerning gA = Map.empty"
    unfolding q_def by blast
  have gq: "chars q 122 = Some (g\<lparr>kerning := kz\<rparr>)"
    using packAll_single_glyphs(2) [of 122 65 demoEnv ?f1 "pageAt demoEnv kerningFont 0"]
    by (simp add: q_def gz)
  have "\<exists>f'. applyKerning demoEnv [65] q = Inr f' \<and>
        measured f' = measured f @ [[65], [65], [122], [65, 122], [65, 122], [65, 65], [65, 65]]"
    by (simp add: applyKerning_def qq gA gq kernPair_def cachedWidth_def setKerning_def Let_def
        demo_widths demo_widths_Az fl_simps)
  with run run2 f show ?thesis by (auto simp: demo_widths)
qed

text \<open>
  C6, as amended. On a fresh font, for distinct glyphs that are not whitespace and share
  one padded size \<open>pw\<close> by \<open>ph\<close>, where \<open>N\<close> glyphs fit on a shelf and \<open>M\<close> shelves fit on
  the page as the packer places them: a call for \<open>N * M + 1\<close> of them leaves exactly the
  pages 0 and 1, the last glyph drawn at the origin of page 1 (plus the padding) with a
  frame at \<open>(0, 0)\<close> of page 1, and every other glyph on page 0. The packer advances by
  \<open>ceil pw\<close> along a shelf (line 251) and by \<open>ceil ph\<close> from shelf to shelf (lines 187 and
  191), and tests the padded size itself (lines 189 and 197): \<open>N\<close> glyphs fit when
  \<open>(N - 1) * ceil pw + pw\<close> is at most the usable width and \<open>N * ceil pw + pw\<close> is not,
  and \<open>M\<close> shelves when \<open>(M - 1) * ceil ph + ph\<close> is at most the usable height and
  \<open>M * ceil ph + ph\<close> is not, the last sum of each rounded as the packer rounds it. The
  cursor positions are whole numbers; they are taken below \<open>2 ^ 53\<close>, where doubles hold
  them exactly.
\<close>

theorem overflow_opens_second_page:
  fixes N M :: nat
  assumes fresh: "fnt = newDynamicBitmapFont bm br options"
    and cs: "resolveCharacters env str = cs" "distinct cs" "length cs = N * M + 1"
    and glyphs: "\<forall>c\<in>set cs. \<not> isWhitespace c \<and> paddedWidth env fnt c = pw \<and>
                   paddedHeight env fnt c = ph"
    and usable: "mw = fdiv (canvasWidth (pageAt env fnt 0)) (resolution fnt)"
      "mh = fdiv (canvasHeight (pageAt env fnt 0)) (resolution fnt)"
    and NM: "1 \<le> N" "1 \<le> M"
    and fitW: "fadd (real (N - 1) * ceil pw) pw \<le> mw" "mw < fadd (real N * ceil pw) pw"
    and fitH: "fadd (real (M - 1) * ceil ph) ph \<le> mh" "mh < fadd (real M * ceil ph) ph"
    and whole: "real N * ceil pw \<le> 2 ^ 53" "real M * ceil ph \<le> 2 ^ 53"
  shows "\<exists>f. ensureCharacters env str fnt = Inr f \<and>
             dom (pages f) = {0, 1} \<and> currentPageIndex f = 1 \<and>
             (\<exists>g t. chars f (last cs) = Some g \<and> texture g = Some t \<and> source t = 1 \<and>
                    rect_x (frame t) = 0 \<and> rect_y (frame t) = 0) \<and>
             last (drawn f) = \<lparr>draw_page = 1, draw_char = last cs,
                                draw_x = scaledPadding fnt, draw_y = scaledPadding fnt\<rparr> \<and>
             (\<forall>c\<in>set (butlast cs). \<exists>g t. chars f c = Some g \<and> texture g = Some t \<and> source t = 0)"
proof -
  from NM obtain n m where N: "N = Suc n" and M: "M = Suc m"
    by (metis Suc_le_D One_nat_def)
  from fitW have fw: "fadd (real n * ceil pw) pw \<le> mw" "mw < fadd (real (Suc n) * ceil pw) pw"
    by (simp_all add: N)
  from fitH have fh: "fadd (real m * ceil ph) ph \<le> mh" "mh < fadd (real (Suc m) * ceil ph) ph"
    by (simp_all add: M)
  from whole have ex: "real (Suc n) * ceil pw \<le> 2 ^ 53" "real (Suc m) * ceil ph \<le> 2 ^ 53"
    by (simp_all add: N M)
  from fh have "0 < ceil ph" by (rule step_positive)
  then have ch: "0 \<le> ceil ph" by simp
  from cs(3) have ne: "cs \<noteq> []" by auto
  then have split: "cs = butlast cs @ [last cs]" by simp
  have fr: "currentPageIndex fnt = - 1" "currentChars fnt = []" "currentX fnt = 0"
    "currentY fnt = 0" "pages fnt = Map.empty"
    by (simp_all add: fresh newDynamicBitmapFont_def Let_def)
  have cl: "charListOf env str fnt = cs"
    using charListOf_fresh [of env str fnt] cs by (simp add: fr)
  let ?f2 = "fst (nextPage env (fnt\<lparr>currentChars := currentChars fnt @ cs\<rparr>))"
  let ?pd = "pageAt env fnt 0"
  let ?p = "packAll env cs ?f2 ?pd"
  let ?l0 = "\<lparr>font = ?f2, pageData = ?pd, cursorX = currentX ?f2, cursorY = currentY ?f2,
              maxCharHeight = 0\<rparr>"
  have mwh: "fdiv (canvasWidth ?pd) (resolution ?f2) = mw"
    "fdiv (canvasHeight ?pd) (resolution ?f2) = mh"
    by (simp_all add: usable started_derived)
  have run: "ensureCharacters env str fnt =
      (if skipKerning fnt then applyKerning env cs ?p else Inr ?p)"
    using ensureCharacters_first [OF fr(1) cl ne] by simp
  have g0: "onGrid env fnt pw ph ?l0 0 0"
    unfolding onGrid_def
    by (simp add: started_derived fr ch glyphFrame_def)
       (simp add: nextPage_font fr nextPage_pageAt pageAt_def)
  have len: "0 * Suc n + 0 + length (butlast cs) \<le> Suc m * Suc n"
    using cs(3) by (simp add: N M)
  have bl: "\<forall>c\<in>set (butlast cs). \<not> isWhitespace c \<and> paddedWidth env fnt c = pw \<and>
      paddedHeight env fnt c = ph"
    using glyphs by (auto dest: in_set_butlastD)
  have db: "distinct (butlast cs)" using cs(2) by (rule distinct_butlast)
  from onGrid_fold [OF fw(1) fw(2) fh(1) ch ex g0 _ _ db bl len]
  obtain row col where grid: "onGrid env fnt pw ph (foldl (packChar env mw mh) ?l0 (butlast cs)) row col"
    "col \<le> Suc n" "row \<le> m" "row * Suc n + col = 0 * Suc n + 0 + length (butlast cs)"
    "\<forall>c\<in>set (butlast cs). \<exists>g t. chars (font (foldl (packChar env mw mh) ?l0 (butlast cs))) c = Some g \<and>
             texture g = Some t \<and> source t = 0"
    by auto
  let ?lN = "foldl (packChar env mw mh) ?l0 (butlast cs)"
  from grid(4) cs(3) have "row * Suc n + col = Suc m * Suc n" by (simp add: N M)
  from grid_full [OF this grid(2) grid(3)] have rc: "row = m" "col = Suc n" by simp_all
  from glyphs ne have v: "\<not> isWhitespace (last cs)" "paddedWidth env fnt (last cs) = pw"
    "paddedHeight env fnt (last cs) = ph" by simp_all
  have full: "mw < fadd (real col * ceil pw) pw" using fw(2) by (simp add: rc)
  have over: "mh < fadd (real (Suc row) * ceil ph) ph" using fh(2) by (simp add: rc)
  have exr: "real (Suc row) * ceil ph \<le> 2 ^ 53" using ex(2) by (simp add: rc)
  note fin = onGrid_step_new_page [OF grid(1) v full over ch exr]
  have loop: "packLoop env cs ?f2 ?pd = packChar env mw mh ?lN (last cs)"
    by (subst split) (simp add: packLoop_def mwh)
  have lastne: "c \<in> set (butlast cs) \<Longrightarrow> c \<noteq> last cs" for c
    using cs(2) split by (metis distinct_append disjoint_iff list.set_intros(1) append_Cons append_Nil distinct.simps(2) not_distinct_conv_prefix)
  have wr: "wraps env mw ?lN (last cs)"
    using grid(1) full by (simp add: wraps_def onGrid_def v)
  have sp: "scaledPadding (font ?lN) = scaledPadding fnt"
    using packingOnly_derived(2) [OF foldl_packChar_packingOnly [of ?l0 env mw mh "butlast cs"]]
    by (simp add: started_derived)
  have p_pages: "pages ?p = [0 \<mapsto> pageAt env fnt 0, 1 \<mapsto> pageAt env fnt 1]"
    and p_index: "currentPageIndex ?p = 1"
    and p_last: "chars ?p (last cs) =
      Some \<lparr>id_code = last cs, xOffset = - padding (font ?lN), yOffset = - padding (font ?lN),
           xAdvance = fsub (fsub (measureTextWidth env [last cs])
                        (case dropShadow (style (font ?lN)) of None \<Rightarrow> 0 | Some d \<Rightarrow> d))
                        (case stroke (style (font ?lN)) of None \<Rightarrow> 0 | Some w \<Rightarrow> w),
           kerning = Map.empty,
           texture = Some \<lparr>source = 1, frame = glyphFrame fnt (pageAt env fnt 1) 0 0 pw ph\<rparr>\<rparr>"
    and p_drawn: "drawn ?p = drawn (font ?lN) @
        [\<lparr>draw_page = 1, draw_char = last cs, draw_x = scaledPadding fnt,
          draw_y = scaledPadding fnt\<rparr>]"
    by (simp_all add: packAll_parts loop fin packChar_drawn v wr sp pageAt_fields
        fadd_0_scaledPadding)
  have p_others: "\<exists>g t. chars ?p c = Some g \<and> texture g = Some t \<and> source t = 0"
    if "c \<in> set (butlast cs)" for c
    using grid(5) that lastne [OF that] by (simp add: packAll_parts loop packChar_other)
  have "\<exists>f. ensureCharacters env str fnt = Inr f \<and> kerningOnly ?p f"
  proof (cases "skipKerning fnt")
    case False
    with run show ?thesis by (simp add: kerningOnly_refl)
  next
    case True
    have d: "dom (chars ?p) = set cs \<union> dom (chars ?f2)"
      by (simp add: packAll_parts packLoop_dom)
    have cc: "currentChars ?p = cs" by (simp add: packAll_kept nextPage_font fr)
    from d have "set cs \<subseteq> dom (chars ?p)" by blast
    moreover from d cc have "set (currentChars ?p) \<subseteq> dom (chars ?p)" by simp
    ultimately obtain f where f: "applyKerning env cs ?p = Inr f"
      using applyKerning_total by blast
    with True run applyKerning_kerningOnly [OF f] show ?thesis by simp
  qed
  then obtain f where f: "ensureCharacters env str fnt = Inr f" and k: "kerningOnly ?p f"
    by blast
  from kerningOnly_glyph [OF k p_last] obtain kn where
    "chars f (last cs) = Some (\<lparr>id_code = last cs, xOffset = - padding (font ?lN),
           yOffset = - padding (font ?lN),
           xAdvance = fsub (fsub (measureTextWidth env [last cs])
                        (case dropShadow (style (font ?lN)) of None \<Rightarrow> 0 | Some d \<Rightarrow> d))
                        (case stroke (style (font ?lN)) of None \<Rightarrow> 0 | Some w \<Rightarrow> w),
           kerning = Map.empty,
           texture = Some \<lparr>source = 1, frame = glyphFrame fnt (pageAt env fnt 1) 0 0 pw ph\<rparr>\<rparr>
           \<lparr>kerning := kn\<rparr>)"
    by blast
  then have lastg: "\<exists>g t. chars f (last cs) = Some g \<and> texture g = Some t \<and> source t = 1 \<and>
                    rect_x (frame t) = 0 \<and> rect_y (frame t) = 0"
    by (simp add: glyphFrame_origin)
  have others: "\<forall>c\<in>set (butlast cs). \<exists>g t. chars f c = Some g \<and> texture g = Some t \<and> source t = 0"
  proof
    fix c assume "c \<in> set (butlast cs)"
    from p_others [OF this] obtain g t where g: "chars ?p c = Some g" "texture g = Some t" "source t = 0"
      by blast
    from kerningOnly_glyph [OF k g(1)] obtain kn where "chars f c = Some (g\<lparr>kerning := kn\<rparr>)"
      by blast
    with g show "\<exists>g t. chars f c = Some g \<and> texture g = Some t \<and> source t = 0" by simp
  qed
  have "dom (pages f) = {0, 1}" "currentPageIndex f = 1"
    "last (drawn f) = \<lparr>draw_page = 1, draw_char = last cs,
                                draw_x = scaledPadding fnt, draw_y = scaledPadding fnt\<rparr>"
    using kerningOnly_fields [OF k] by (auto simp: p_pages p_index p_drawn)
  with f lastg others show ?thesis by blast
qed

theorem overflow_opens_second_page_witness:
  "demoFont = newDynamicBitmapFont 100 100 demoOptions \<and>
   resolveCharacters demoEnv ''abd'' = [97, 98, 100] \<and> distinct [97, 98, 100 :: nat] \<and>
   length [97, 98, 100 :: nat] = 1 * 2 + 1 \<and>
   \<not> isWhitespace 97 \<and> \<not> isWhitespace 98 \<and> \<not> isWhitespace 100 \<and>
   paddedWidth demoEnv demoFont 97 = 40 \<and> paddedWidth demoEnv demoFont 98 = 40 \<and>
   paddedWidth demoEnv demoFont 100 = 40 \<and>
   paddedHeight demoEnv demoFont 97 = 30 \<and> paddedHeight demoEnv demoFont 98 = 30 \<and>
   paddedHeight demoEnv demoFont 100 = 30 \<and>
   fdiv (canvasWidth (pageAt demoEnv demoFont 0)) (resolution demoFont) = 64 \<and>
   fdiv (canvasHeight (pageAt demoEnv demoFont 0)) (resolution demoFont) = 64 \<and>
   fadd (real (1 - 1) * ceil 40) 40 \<le> (64 :: real) \<and> (64 :: real) < fadd (real 1 * ceil 40) 40 \<and>
   fadd (real (2 - 1) * ceil 30) 30 \<le> (64 :: real) \<and> (64 :: real) < fadd (real 2 * ceil 30) 30 \<and>
   real 1 * ceil 40 \<le> (2 :: real) ^ 53 \<and> real 2 * ceil 30 \<le> (2 :: real) ^ 53 \<and>
   (\<exists>f. ensureCharacters demoEnv ''abd'' demoFont = Inr f \<and>
        dom (pages f) = {0, 1} \<and> currentPageIndex f = 1 \<and>
        (\<exists>g t. chars f 100 = Some g \<and> texture g = Some t \<and> source t = 1 \<and>
               rect_x (frame t) = 0 \<and> rect_y (frame t) = 0) \<and>
        last (drawn f) = \<lparr>draw_page = 1, draw_char = 100, draw_x = 0, draw_y = 0\<rparr> \<and>
        (\<exists>g t. chars f 97 = Some g \<and> texture g = Some t \<and> source t = 0) \<and>
        (\<exists>g t. chars f 98 = Some g \<and> texture g = Some t \<and> source t = 0))"
proof -
  have h1: "demoFont = newDynamicBitmapFont 100 100 demoOptions" by (simp add: demoFont_def)
  have h2: "resolveCharacters demoEnv ''abd'' = [97, 98, 100]" by (simp add: demoEnv_def)
  have h3: "distinct [97, 98, 100 :: nat]" by simp
  have h4: "length [97, 98, 100 :: nat] = 1 * 2 + 1" by simp
  have ws: "\<not> isWhitespace 97" "\<not> isWhitespace 98" "\<not> isWhitespace 100"
    by (simp_all add: isWhitespace_def)
  have pd: "paddedWidth demoEnv demoFont 97 = 40" "paddedWidth demoEnv demoFont 98 = 40"
    "paddedWidth demoEnv demoFont 100 = 40" "paddedHeight demoEnv demoFont 97 = 30"
    "paddedHeight demoEnv demoFont 98 = 30" "paddedHeight demoEnv demoFont 100 = 30"
    by (simp_all add: paddedWidth_def paddedHeight_def demoFont_fields demoEnv_def ceil_def
        fl_simps)
  from ws pd have h5: "\<forall>c\<in>set [97, 98, 100]. \<not> isWhitespace c \<and>
      paddedWidth demoEnv demoFont c = 40 \<and> paddedHeight demoEnv demoFont c = 30" by simp
  have h7: "64 = fdiv (canvasWidth (pageAt demoEnv demoFont 0)) (resolution demoFont)"
    "64 = fdiv (canvasHeight (pageAt demoEnv demoFont 0)) (resolution demoFont)"
    by (simp_all add: demo_page demoFont_fields fl_simps)
  have h8: "(1 :: nat) \<le> 1" "(1 :: nat) \<le> 2" by simp_all
  have h9: "fadd (real (1 - 1) * ceil 40) 40 \<le> (64 :: real)"
    "(64 :: real) < fadd (real 1 * ceil 40) 40"
    "fadd (real (2 - 1) * ceil 30) 30 \<le> (64 :: real)"
    "(64 :: real) < fadd (real 2 * ceil 30) 30"
    by (simp_all add: ceil_def fl_simps)
  have h10: "real 1 * ceil 40 \<le> (2 :: real) ^ 53" "real 2 * ceil 30 \<le> (2 :: real) ^ 53"
    by (simp_all add: ceil_def)
  from overflow_opens_second_page [OF h1 h2 h3 h4 h5 h7 h8 h9 h10]
  have "\<exists>f. ensureCharacters demoEnv ''abd'' demoFont = Inr f \<and>
        dom (pages f) = {0, 1} \<and> currentPageIndex f = 1 \<and>
        (\<exists>g t. chars f 100 = Some g \<and> texture g = Some t \<and> source t = 1 \<and>
               rect_x (frame t) = 0 \<and> rect_y (frame t) = 0) \<and>
        last (drawn f) = \<lparr>draw_page = 1, draw_char = 100, draw_x = 0, draw_y = 0\<rparr> \<and>
        (\<exists>g t. chars f 97 = Some g \<and> texture g = Some t \<and> source t = 0) \<and>
        (\<exists>g t. chars f 98 = Some g \<and> texture g = Some t \<and> source t = 0)"
    by (simp add: demoFont_fields)
  with h1 h2 h3 h4 ws pd h7 [symmetric] h9 h10 show ?thesis by simp
qed

text \<open>
  The property as the specification words it, with \<open>N\<close> glyphs fitting on a shelf when
  \<open>N\<close> padded widths are at most the usable width and \<open>N + 1\<close> are not: on a page of 64
  by 64, glyphs with a padded box of 21.25 by 30 fit three to a shelf and two shelves to
  the page. The packer advances by 22, so the third glyph of a shelf fails the test at
  \<open>44 + 21.25\<close>, and a shelf holds two. Of the seven glyphs of \<open>abcdefg\<close>, \<open>e\<close>, \<open>f\<close> and
  \<open>g\<close> are placed on page 1, and the last glyph \<open>g\<close> at \<open>(0, 30)\<close>.
\<close>

theorem overflow_counterexample:
  "resolveCharacters gridEnv ''abcdefg'' = [97, 98, 99, 100, 101, 102, 103] \<and>
   length [97, 98, 99, 100, 101, 102, 103 :: nat] = 3 * 2 + 1 \<and>
   paddedWidth gridEnv gridFont 97 = 85 / 4 \<and> paddedHeight gridEnv gridFont 97 = 30 \<and>
   paddedWidth gridEnv gridFont 103 = 85 / 4 \<and> paddedHeight gridEnv gridFont 103 = 30 \<and>
   fdiv (canvasWidth (pageAt gridEnv gridFont 0)) (resolution gridFont) = 64 \<and>
   fdiv (canvasHeight (pageAt gridEnv gridFont 0)) (resolution gridFont) = 64 \<and>
   3 * (85 / 4) \<le> (64 :: real) \<and> (64 :: real) < 4 * (85 / 4) \<and>
   2 * 30 \<le> (64 :: real) \<and> (64 :: real) < 3 * 30 \<and>
   (\<exists>f ge gf gg. ensureCharacters gridEnv ''abcdefg'' gridFont = Inr f \<and>
      chars f 101 = Some ge \<and>
      texture ge = Some \<lparr>source = 1,
        frame = \<lparr>rect_x = 0, rect_y = 0, rect_width = 85 / 4, rect_height = 30\<rparr>\<rparr> \<and>
      chars f 102 = Some gf \<and>
      texture gf = Some \<lparr>source = 1,
        frame = \<lparr>rect_x = 22, rect_y = 0, rect_width = 85 / 4, rect_height = 30\<rparr>\<rparr> \<and>
      chars f 103 = Some gg \<and>
      texture gg = Some \<lparr>source = 1,
        frame = \<lparr>rect_x = 0, rect_y = 30, rect_width = 85 / 4, rect_height = 30\<rparr>\<rparr>)"
  by (simp add: ensureCharacters_first [OF _ grid_charList] gridFont_fields packAll_parts
      packLoop_def packChar_glyph packChar_other packChar_cursorX packChar_cursorY
      packChar_maxCharHeight packChar_pageData packChar_currentPageIndex packChar_derived
      started_derived wraps_def overflows_def shelfHeight_def grid_padded grid_page
      isWhitespace_def ceil_def glyphFrame_def fl_simps fl_dyadics)
     (simp add: gridEnv_def demoEnv_def)




text \<open>
  C8, as amended. For a font built by the constructor from \<open>options\<close>, possibly after
  earlier calls, a successful call records for every new character an \<open>xAdvance\<close> equal
  to the measured width minus the drop shadow distance minus the stroke width of the
  font's own style; that stroke width is the configured one when \<open>overrideSize\<close> is off,
  and the configured one times \<open>baseRenderedFontSize / requestedFontSize\<close> when it is on.
  The operations are those of lines 212 to 214 and of line 101, in their order, each
  rounded to a double.
\<close>

theorem xAdvance_recorded:
  assumes "style fnt = style (newDynamicBitmapFont bm br options)"
    and "ensureCharacters env str fnt = Inr fnt'"
    and "c \<in> set (charListOf env str fnt)"
    and "opt_overrideSize options \<longrightarrow> fontSize (opt_style options) \<noteq> 0"
  shows "style fnt' = style fnt \<and>
         (\<exists>g. chars fnt' c = Some g \<and>
            xAdvance g =
              fsub (fsub (measureTextWidth env [c])
                      (case dropShadow (opt_style options) of None \<Rightarrow> 0 | Some d \<Rightarrow> d))
                (case stroke (opt_style options) of None \<Rightarrow> 0
                 | Some w \<Rightarrow> if opt_overrideSize options
                             then fmul w (fdiv br (fontSize (opt_style options))) else w))"
proof -
  from ensureCharacters_new_glyph [OF assms(2) assms(3)] obtain g where
    g: "chars fnt' c = Some g"
    "xAdvance g = fsub (fsub (measureTextWidth env [c])
                        (case dropShadow (style fnt) of None \<Rightarrow> 0 | Some d \<Rightarrow> d))
                        (case stroke (style fnt) of None \<Rightarrow> 0 | Some w \<Rightarrow> w)"
    by blast
  have "(case stroke (style fnt) of None \<Rightarrow> 0 | Some w \<Rightarrow> w) =
        (case stroke (opt_style options) of None \<Rightarrow> 0
                 | Some w \<Rightarrow> if opt_overrideSize options
                             then fmul w (fdiv br (fontSize (opt_style options))) else w)"
    by (simp add: assms(1) style_new split: option.splits)
  moreover have "dropShadow (style fnt) = dropShadow (opt_style options)"
    by (simp add: assms(1) style_new)
  ultimately show ?thesis
    using g ensureCharacters_kept(1) [OF assms(2)] by simp
qed

theorem xAdvance_recorded_witness:
  "style demoFont = style (newDynamicBitmapFont 100 100 demoOptions) \<and>
   99 \<in> set (charListOf demoEnv ''abc'' demoFont) \<and>
   (\<exists>f g. ensureCharacters demoEnv ''abc'' demoFont = Inr f \<and> style f = style demoFont \<and>
      chars f 99 = Some g \<and> xAdvance g = 10)"
proof -
  from ensureCharacters_total [OF wellFormed_new, of demoEnv "''abc''" 100 100 demoOptions]
  obtain f where f: "ensureCharacters demoEnv ''abc'' demoFont = Inr f"
    unfolding demoFont_def by blast
  have s: "style demoFont = style (newDynamicBitmapFont 100 100 demoOptions)"
    by (simp add: demoFont_def)
  have c: "99 \<in> set (charListOf demoEnv ''abc'' demoFont)" by (simp add: demo_charList)
  have z: "opt_overrideSize demoOptions \<longrightarrow> fontSize (opt_style demoOptions) \<noteq> 0"
    by (simp add: demoOptions_def)
  from xAdvance_recorded [OF s f c z] obtain g where
    "style f = style demoFont" "chars f 99 = Some g" "xAdvance g = 10"
    by (auto simp: demoOptions_def demoEnv_def fl_simps)
  with f s c show ?thesis by blast
qed

text \<open>
  With \<open>overrideSize\<close>, a configured stroke width of 10 and no drop shadow, the letter
  \<open>A\<close> of measured width 30 gets the advance \<open>30 - 10 * (100 / 20) = - 20\<close> when the
  requested font size is 20 and \<open>30 - 10 * (100 / 40) = 5\<close> when it is 40, every
  intermediate result being a double; the measured width minus the configured stroke
  width is 20.
\<close>

theorem xAdvance_counterexample:
  "(\<exists>f g. ensureCharacters demoEnv ''A'' (newDynamicBitmapFont 100 100 (strokeOptions 20)) = Inr f \<and>
      chars f 65 = Some g \<and> xAdvance g = - 20) \<and>
   (\<exists>f g. ensureCharacters demoEnv ''A'' (newDynamicBitmapFont 100 100 (strokeOptions 40)) = Inr f \<and>
      chars f 65 = Some g \<and> xAdvance g = 5) \<and>
   stroke (opt_style (strokeOptions 20)) = Some 10 \<and>
   stroke (opt_style (strokeOptions 40)) = Some 10 \<and>
   dropShadow (opt_style (strokeOptions 20)) = None \<and>
   dropShadow (opt_style (strokeOptions 40)) = None \<and>
   measureTextWidth demoEnv [65] - 10 - 0 = 20"
proof -
  have run: "\<exists>f g. ensureCharacters demoEnv ''A'' (newDynamicBitmapFont 100 100 (strokeOptions s)) = Inr f \<and>
      chars f 65 = Some g \<and> xAdvance g = fsub (fsub 30 0) (fmul 10 (fdiv 100 s))" for s
  proof -
    let ?fnt = "newDynamicBitmapFont 100 100 (strokeOptions s)"
    from ensureCharacters_total [OF wellFormed_new, of demoEnv "''A''" 100 100 "strokeOptions s"]
    obtain f where f: "ensureCharacters demoEnv ''A'' ?fnt = Inr f" by blast
    have "65 \<in> set (charListOf demoEnv ''A'' ?fnt)" by (simp add: demo_charList_A)
    from ensureCharacters_new_glyph [OF f this] obtain g where
      "chars f 65 = Some g"
      "xAdvance g = fsub (fsub (measureTextWidth demoEnv [65])
                        (case dropShadow (style ?fnt) of None \<Rightarrow> 0 | Some d \<Rightarrow> d))
                        (case stroke (style ?fnt) of None \<Rightarrow> 0 | Some w \<Rightarrow> w)"
      by blast
    then have "chars f 65 = Some g \<and> xAdvance g = fsub (fsub 30 0) (fmul 10 (fdiv 100 s))"
      by (simp add: style_new strokeOptions_def demoEnv_def)
    with f show ?thesis by blast
  qed
  have "fl (5 / 2) = 5 / 2" using fl_dyadic [of 5 1] by simp
  with run [of 20] run [of 40] show ?thesis
    by (simp add: strokeOptions_def demoEnv_def fl_simps)
qed

text \<open>
  C9, as amended. A glyph that is not whitespace, recorded at the cursor
  \<open>(cursorX, cursorY)\<close> with the padded box \<open>(paddedWidth, paddedHeight)\<close>, gets the frame
  that lines 236 to 244 compute through the width \<open>w\<close> and the height \<open>h\<close> of the texture
  source, \<open>((cursorX / (w * fontScale)) * w, (cursorY / (h * fontScale)) * h,
  (paddedWidth / (w * fontScale)) * w, (paddedHeight / (h * fontScale)) * h)\<close>, each of the
  three operations of a coordinate rounded to a double. For source dimensions and a font
  scale of moderate magnitude, every coordinate differs from its value divided by the
  font scale by no more than \<open>2 ^ -51\<close> of that quotient.
\<close>

theorem recordGlyph_frame:
  assumes "\<not> isWhitespace char"
    and "moderate (sourceWidth (pageData l))" "moderate (sourceHeight (pageData l))"
    and "moderate (fontScale (font l))"
    and "pixel (cursorX l)" "pixel (cursorY l)"
    and "pixel (paddedWidth env (font l) char)" "pixel (paddedHeight env (font l) char)"
  shows "\<exists>g t. chars (font (recordGlyph env l char)) char = Some g \<and> texture g = Some t \<and>
           source t = pageIndex (pageData l) \<and>
           frame t = glyphFrame (font l) (pageData l) (cursorX l) (cursorY l)
                       (paddedWidth env (font l) char) (paddedHeight env (font l) char) \<and>
           \<bar>rect_x (frame t) - cursorX l / fontScale (font l)\<bar>
             \<le> \<bar>cursorX l / fontScale (font l)\<bar> / 2 ^ 51 \<and>
           \<bar>rect_y (frame t) - cursorY l / fontScale (font l)\<bar>
             \<le> \<bar>cursorY l / fontScale (font l)\<bar> / 2 ^ 51 \<and>
           \<bar>rect_width (frame t) - paddedWidth env (font l) char / fontScale (font l)\<bar>
             \<le> \<bar>paddedWidth env (font l) char / fontScale (font l)\<bar> / 2 ^ 51 \<and>
           \<bar>rect_height (frame t) - paddedHeight env (font l) char / fontScale (font l)\<bar>
             \<le> \<bar>paddedHeight env (font l) char / fontScale (font l)\<bar> / 2 ^ 51"
proof -
  let ?fr = "glyphFrame (font l) (pageData l) (cursorX l) (cursorY l)
               (paddedWidth env (font l) char) (paddedHeight env (font l) char)"
  have g: "chars (font (recordGlyph env l char)) char =
      Some \<lparr>id_code = char, xOffset = - padding (font l), yOffset = - padding (font l),
            xAdvance = fsub (fsub (measureTextWidth env [char])
                         (case dropShadow (style (font l)) of None \<Rightarrow> 0 | Some d \<Rightarrow> d))
                         (case stroke (style (font l)) of None \<Rightarrow> 0 | Some w \<Rightarrow> w),
            kerning = Map.empty,
            texture = Some \<lparr>source = pageIndex (pageData l), frame = ?fr\<rparr>\<rparr>"
    using assms(1) by (simp add: recordGlyph_def Let_def)
  have x: "\<bar>rect_x ?fr - cursorX l / fontScale (font l)\<bar>
      \<le> \<bar>cursorX l / fontScale (font l)\<bar> / 2 ^ 51"
    using coord_error [OF assms(2,4,5)] by (simp add: glyphFrame_def Let_def)
  have y: "\<bar>rect_y ?fr - cursorY l / fontScale (font l)\<bar>
      \<le> \<bar>cursorY l / fontScale (font l)\<bar> / 2 ^ 51"
    using coord_error [OF assms(3,4,6)] by (simp add: glyphFrame_def Let_def)
  have w: "\<bar>rect_width ?fr - paddedWidth env (font l) char / fontScale (font l)\<bar>
      \<le> \<bar>paddedWidth env (font l) char / fontScale (font l)\<bar> / 2 ^ 51"
    using coord_error [OF assms(2,4,7)] by (simp add: glyphFrame_def Let_def)
  have h: "\<bar>rect_height ?fr - paddedHeight env (font l) char / fontScale (font l)\<bar>
      \<le> \<bar>paddedHeight env (font l) char / fontScale (font l)\<bar> / 2 ^ 51"
    using coord_error [OF assms(3,4,8)] by (simp add: glyphFrame_def Let_def)
  from g x y w h show ?thesis by simp
qed

theorem recordGlyph_frame_witness:
  "\<not> isWhitespace 99 \<and> sourceWidth (pageData halfLocals) = 128 \<and>
   sourceHeight (pageData halfLocals) = 128 \<and> fontScale (font halfLocals) = 1 / 2 \<and>
   moderate 128 \<and> moderate (1 / 2) \<and>
   cursorX halfLocals = 10 \<and> cursorY halfLocals = 20 \<and> pixel 10 \<and> pixel 20 \<and>
   paddedWidth demoEnv (font halfLocals) 99 = 5 \<and>
   paddedHeight demoEnv (font halfLocals) 99 = 25 \<and> pixel 5 \<and> pixel 25 \<and>
   (\<exists>g t. chars (font (recordGlyph demoEnv halfLocals 99)) 99 = Some g \<and>
        texture g = Some t \<and> source t = 0 \<and>
        frame t = \<lparr>rect_x = 20, rect_y = 40, rect_width = 10, rect_height = 50\<rparr> \<and>
        \<bar>rect_x (frame t) - 10 / (1 / 2)\<bar> \<le> \<bar>10 / (1 / 2)\<bar> / 2 ^ 51 \<and>
        \<bar>rect_y (frame t) - 20 / (1 / 2)\<bar> \<le> \<bar>20 / (1 / 2)\<bar> / 2 ^ 51 \<and>
        \<bar>rect_width (frame t) - 5 / (1 / 2)\<bar> \<le> \<bar>5 / (1 / 2)\<bar> / 2 ^ 51 \<and>
        \<bar>rect_height (frame t) - 25 / (1 / 2)\<bar> \<le> \<bar>25 / (1 / 2)\<bar> / 2 ^ 51)"
proof -
  have h: "\<not> isWhitespace 99" by (simp add: isWhitespace_def)
  have p: "pageData halfLocals =
      \<lparr>pageIndex = 0, canvasWidth = 64, canvasHeight = 64, sourceWidth = 128,
       sourceHeight = 128, sourceResolution = 1 / 2\<rparr>"
    by (simp add: halfLocals_def pageAt_def half_fields demoEnv_def Let_def fl_simps fl_dyadics
        halfFont_def demoOptions_def newDynamicBitmapFont_def)
  have f: "font halfLocals = halfFont" "cursorX halfLocals = 10" "cursorY halfLocals = 20"
    by (simp_all add: halfLocals_def)
  have pw: "paddedWidth demoEnv halfFont 99 = 5"
    and ph: "paddedHeight demoEnv halfFont 99 = 25"
    by (simp_all add: paddedWidth_def paddedHeight_def half_fields demoEnv_def
        ceil_def fl_simps fl_dyadics)
  have m: "moderate 128" "moderate (1 / 2)" "pixel 10" "pixel 20" "pixel 5" "pixel 25"
    by (simp_all add: moderate_def pixel_def)
  have fr: "glyphFrame halfFont (pageData halfLocals) 10 20 5 25 =
      \<lparr>rect_x = 20, rect_y = 40, rect_width = 10, rect_height = 50\<rparr>"
    by (simp add: glyphFrame_def p half_fields fl_simps fl_dyadics)
  from recordGlyph_frame [of 99 halfLocals demoEnv] h m
  have "\<exists>g t. chars (font (recordGlyph demoEnv halfLocals 99)) 99 = Some g \<and>
        texture g = Some t \<and> source t = 0 \<and>
        frame t = \<lparr>rect_x = 20, rect_y = 40, rect_width = 10, rect_height = 50\<rparr> \<and>
        \<bar>rect_x (frame t) - 10 / (1 / 2)\<bar> \<le> \<bar>10 / (1 / 2)\<bar> / 2 ^ 51 \<and>
        \<bar>rect_y (frame t) - 20 / (1 / 2)\<bar> \<le> \<bar>20 / (1 / 2)\<bar> / 2 ^ 51 \<and>
        \<bar>rect_width (frame t) - 5 / (1 / 2)\<bar> \<le> \<bar>5 / (1 / 2)\<bar> / 2 ^ 51 \<and>
        \<bar>rect_height (frame t) - 25 / (1 / 2)\<bar> \<le> \<bar>25 / (1 / 2)\<bar> / 2 ^ 51"
    by (simp add: p pw ph f half_fields fr [unfolded p])
  with h p f pw ph m show ?thesis by (simp add: half_fields)
qed

text \<open>
  The property as stated, with exact equality and a frame that does not depend on the
  texture source. A font of size 26 has the scale \<open>fl (26 / 100)\<close>, and its pages of
  512 pixels have a texture source of width \<open>fl (512 / fl (26 / 100))\<close>. Every character is
  13 pixels wide, so \<open>ensureCharacters('ab')\<close> draws \<open>b\<close> at \<open>x = 13\<close>. The frame of \<open>b\<close>
  starts at \<open>50 - 2 ^ -47\<close>, the double below 50, while \<open>13 / fontScale\<close> rounds to 50;
  with a texture source 512 wide the same position gives the frame \<open>x = 50\<close>.
\<close>

theorem frame_counterexample:
  "fontScale scaledFont = 1170935903116329 / 4503599627370496 \<and>
   (\<exists>f g t. ensureCharacters scaleEnv ''ab'' scaledFont = Inr f \<and>
      drawn f = [\<lparr>draw_page = 0, draw_char = 97, draw_x = 0, draw_y = 0\<rparr>,
                 \<lparr>draw_page = 0, draw_char = 98, draw_x = 13, draw_y = 0\<rparr>] \<and>
      chars f 98 = Some g \<and> texture g = Some t \<and> source t = 0 \<and>
      rect_x (frame t) = 7036874417766399 / 140737488355328) \<and>
   fdiv 13 (fontScale scaledFont) = 50 \<and>
   13 / fontScale scaledFont \<noteq> 7036874417766399 / 140737488355328 \<and>
   sourceWidth (pageAt scaleEnv scaledFont 0) = 4330384257087015 / 2199023255552 \<and>
   rect_x (glyphFrame scaledFont (pageAt scaleEnv scaledFont 0) 13 0 13 26)
     = 7036874417766399 / 140737488355328 \<and>
   rect_x (glyphFrame scaledFont ((pageAt scaleEnv scaledFont 0)\<lparr>sourceWidth := 512\<rparr>) 13 0 13 26)
     = 50"
proof -
  have run: "\<exists>f g t. ensureCharacters scaleEnv ''ab'' scaledFont = Inr f \<and>
      drawn f = [\<lparr>draw_page = 0, draw_char = 97, draw_x = 0, draw_y = 0\<rparr>,
                 \<lparr>draw_page = 0, draw_char = 98, draw_x = 13, draw_y = 0\<rparr>] \<and>
      chars f 98 = Some g \<and> texture g = Some t \<and> source t = 0 \<and>
      rect_x (frame t) = 7036874417766399 / 140737488355328"
    by (simp add: scaled_fl ensureCharacters_first [OF _ scaled_charList] scaledFont_fields packAll_parts
        packLoop_def packChar_glyph packChar_drawn packChar_cursorX packChar_cursorY
        packChar_maxCharHeight packChar_pageData packChar_currentPageIndex packChar_derived
        started_derived started_fields wraps_def overflows_def shelfHeight_def scaled_padded
        scaled_page isWhitespace_def ceil_def glyphFrame_def fl_simps started_drawn)
  have a: "fdiv 13 (fontScale scaledFont) = 50"
    by (simp add: scaledFont_fields fdiv_def scaled_fl)
  have b: "13 / fontScale scaledFont \<noteq> 7036874417766399 / 140737488355328"
    by (simp add: scaledFont_fields)
  have c: "rect_x (glyphFrame scaledFont (pageAt scaleEnv scaledFont 0) 13 0 13 26)
     = 7036874417766399 / 140737488355328"
    by (simp add: glyphFrame_def scaled_page scaledFont_fields fl_simps scaled_fl)
  have d: "rect_x (glyphFrame scaledFont
      ((pageAt scaleEnv scaledFont 0)\<lparr>sourceWidth := 512\<rparr>) 13 0 13 26) = 50"
    by (simp add: glyphFrame_def scaled_page scaledFont_fields fl_simps scaled_fl fl_dyadics)
  from run a b c d show ?thesis by (simp add: scaledFont_fields scaled_page)
qed

text \<open>
  C10. The WGSL and the GLSL variant of \<open>calculateMSDFAlpha\<close> are the same function of
  \<open>msdfColor\<close>, \<open>shapeColor\<close> and \<open>distance\<close>, over the reals.
\<close>

theorem calculateMSDFAlpha_wgsl_eq_glsl:
  "calculateMSDFAlpha_wgsl msdfColor shapeColor distance =
   calculateMSDFAlpha_glsl msdfColor shapeColor distance"
  unfolding calculateMSDFAlpha_wgsl_def calculateMSDFAlpha_glsl_def by (rule refl)

end
